theory Spec2Isabelle
  imports Main
begin

section \<open>Eigen vectors and matrices\<close>

text \<open>
  \<^verbatim>\<open>VecXi\<close> is a dynamically sized vector of \<^verbatim>\<open>int\<close>, \<^verbatim>\<open>MatXi\<close> and \<^verbatim>\<open>MatXb\<close> are
  dynamically sized matrices of \<^verbatim>\<open>int\<close> and \<^verbatim>\<open>bool\<close>.  A vector is the list of its
  coefficients, a matrix the list of its rows.  The entries are variable labels that the
  program only copies and compares, so they are unbounded integers here; sizes and loop
  counters are natural numbers.  The loop bounds \<^verbatim>\<open>d_ - 1\<close>, \<^verbatim>\<open>d_ - i\<close> and \<^verbatim>\<open>d_ - i - 1\<close> of
  the source are negative only for \<^verbatim>\<open>d_ = 0\<close>, where the loops run no iteration with
  either reading of the subtraction.  Reading or writing outside a matrix is undefined in
  Eigen: the theorems below are about square matrices, for which every access of the
  source is in range, and those on \<^verbatim>\<open>get_needed_hfunc2\<close> have \<open>d \<ge> 1\<close>, since for
  \<^verbatim>\<open>d_ = 0\<close> the source asks for a block of \<open>-1\<close> rows.
\<close>

type_synonym VecXi = "int list"
type_synonym MatXi = "int list list"
type_synonym MatXb = "bool list list"

definition rows :: "'a list list \<Rightarrow> nat" where
  "rows m = length m"

definition cols :: "'a list list \<Rightarrow> nat" where
  "cols m = (case m of [] \<Rightarrow> 0 | r # _ \<Rightarrow> length r)"

text \<open>\<open>dims m r c\<close>: the matrix has \<open>r\<close> rows of \<open>c\<close> coefficients each.\<close>

definition dims :: "'a list list \<Rightarrow> nat \<Rightarrow> nat \<Rightarrow> bool" where
  "dims m r c \<longleftrightarrow> length m = r \<and> list_all (\<lambda>row. length row = c) m"

text \<open>\<^verbatim>\<open>Matrix::Constant(r, c, v)\<close> and \<^verbatim>\<open>MatXi::Zero(r, c)\<close>.\<close>

definition Constant :: "nat \<Rightarrow> nat \<Rightarrow> 'a \<Rightarrow> 'a list list" where
  "Constant r c v = replicate r (replicate c v)"

definition Zero :: "nat \<Rightarrow> nat \<Rightarrow> MatXi" where
  "Zero r c = Constant r c 0"

text \<open>Reading \<^verbatim>\<open>m(i, j)\<close> and the assignment \<^verbatim>\<open>m(i, j) = v\<close>.\<close>

definition coeff :: "'a list list \<Rightarrow> nat \<Rightarrow> nat \<Rightarrow> 'a" where
  "coeff m i j = m ! i ! j"

definition set_coeff :: "'a list list \<Rightarrow> nat \<Rightarrow> nat \<Rightarrow> 'a \<Rightarrow> 'a list list" where
  "set_coeff m i j v = m[i := (m ! i)[j := v]]"

text \<open>
  \<^verbatim>\<open>m.colwise().reverse()\<close> reverses every column, which turns the rows upside down;
  \<^verbatim>\<open>m.diagonal()\<close> is the vector of the coefficients \<open>(k, k)\<close>; \<^verbatim>\<open>v.reverse()\<close>
  reverses a vector.
\<close>

definition colwise_reverse :: "'a list list \<Rightarrow> 'a list list" where
  "colwise_reverse m = rev m"

definition diagonal :: "'a list list \<Rightarrow> 'a list" where
  "diagonal m = map (\<lambda>k. coeff m k k) [0..<min (rows m) (cols m)]"

definition vec_reverse :: "'a list \<Rightarrow> 'a list" where
  "vec_reverse v = rev v"

text \<open>
  \<^verbatim>\<open>m.block(r0, c0, nr, nc)\<close> is the \<open>nr\<close> by \<open>nc\<close> block whose top left corner is
  \<open>(r0, c0)\<close>; \<^verbatim>\<open>b.maxCoeff()\<close> is the largest coefficient of a non-empty matrix.
\<close>

definition block :: "'a list list \<Rightarrow> nat \<Rightarrow> nat \<Rightarrow> nat \<Rightarrow> nat \<Rightarrow> 'a list list" where
  "block m r0 c0 nr nc = map (\<lambda>row. take nc (drop c0 row)) (take nr (drop r0 m))"

definition maxCoeff :: "MatXi \<Rightarrow> int" where
  "maxCoeff b = (case concat b of x # xs \<Rightarrow> fold max xs x)"

text \<open>
  The coefficient-wise tests \<^verbatim>\<open>b.array() != j\<close> and \<^verbatim>\<open>b.array() == j\<close>, the
  coefficient-wise \<^verbatim>\<open>a.array() && b.array()\<close>, \<^verbatim>\<open>b.rowwise().any()\<close> (a matrix with
  one column) and \<^verbatim>\<open>b.any()\<close>.
\<close>

definition array_ne :: "MatXi \<Rightarrow> int \<Rightarrow> MatXb" where
  "array_ne b x = map (map (\<lambda>y. y \<noteq> x)) b"

definition array_eq :: "MatXi \<Rightarrow> int \<Rightarrow> MatXb" where
  "array_eq b x = map (map (\<lambda>y. y = x)) b"

definition array_and :: "MatXb \<Rightarrow> MatXb \<Rightarrow> MatXb" where
  "array_and a b = map2 (map2 (\<and>)) a b"

definition rowwise_any :: "MatXb \<Rightarrow> MatXb" where
  "rowwise_any b = map (\<lambda>row. [list_ex (\<lambda>y. y) row]) b"

definition any :: "MatXb \<Rightarrow> bool" where
  "any b = list_ex (\<lambda>y. y) (concat b)"

section \<open>Loops\<close>

text \<open>
  \<^verbatim>\<open>for (int i = lo; i < n; ++i) body\<close>, the state threaded through the iterations.
\<close>

function for_loop :: "nat \<Rightarrow> nat \<Rightarrow> (nat \<Rightarrow> 's \<Rightarrow> 's) \<Rightarrow> 's \<Rightarrow> 's" where
  "for_loop i n body s = (if i < n then for_loop (Suc i) n body (body i s) else s)"
  by pat_completeness auto
termination
  by (relation "measure (\<lambda>(i, n, body, s). n - i)") auto

declare for_loop.simps [simp del]

text \<open>
  The block assignment \<^verbatim>\<open>m.block(r0, c0, nr, nc) = b\<close> copies the \<open>nr\<close> by \<open>nc\<close>
  matrix \<open>b\<close> into the block, coefficient by coefficient.
\<close>

definition set_block ::
  "'a list list \<Rightarrow> nat \<Rightarrow> nat \<Rightarrow> nat \<Rightarrow> nat \<Rightarrow> 'a list list \<Rightarrow> 'a list list" where
  "set_block m r0 c0 nr nc b =
     for_loop 0 nr (\<lambda>r m'.
       for_loop 0 nc (\<lambda>c m''. set_coeff m'' (r0 + r) (c0 + c) (coeff b r c)) m') m"

section \<open>The relabeling utility\<close>

text \<open>
  \<^verbatim>\<open>relabel_one\<close>: the scan over \<^verbatim>\<open>old_labels\<close> from position \<open>i\<close> on, leaving the loop
  at the first hit.
\<close>

function relabel_one_from :: "nat \<Rightarrow> int \<Rightarrow> VecXi \<Rightarrow> VecXi \<Rightarrow> int" where
  "relabel_one_from i x old_labels new_labels =
     (if i < length old_labels
      then (if x = old_labels ! i then new_labels ! i
            else relabel_one_from (Suc i) x old_labels new_labels)
      else 0)"
  by pat_completeness auto
termination
  by (relation "measure (\<lambda>(i, x, old_labels, new_labels). length old_labels - i)") auto

declare relabel_one_from.simps [simp del]

definition relabel_one :: "int \<Rightarrow> VecXi \<Rightarrow> VecXi \<Rightarrow> int" where
  "relabel_one x old_labels new_labels = relabel_one_from 0 x old_labels new_labels"

definition relabel_elements :: "MatXi \<Rightarrow> VecXi \<Rightarrow> MatXi" where
  "relabel_elements matrix new_labels =
     (let d = rows matrix;
          old_labels = diagonal (colwise_reverse matrix);
          new_matrix = Zero d d
      in for_loop 0 d (\<lambda>i nm.
           for_loop 0 (d - i) (\<lambda>j nm'.
             set_coeff nm' i j (relabel_one (coeff matrix i j) old_labels new_labels)) nm)
         new_matrix)"

section \<open>The structure matrix\<close>

text \<open>
  The class \<^verbatim>\<open>RVineMatrix\<close> has the members \<^verbatim>\<open>d_\<close> and \<^verbatim>\<open>matrix_\<close>; a name cannot
  end with an underscore here, so they are \<open>rvm_d\<close> and \<open>rvm_matrix\<close>.  The constructor
  takes the dimension from the number of rows and checks nothing.
\<close>

record RVineMatrix =
  rvm_d :: nat
  rvm_matrix :: MatXi

definition make_RVineMatrix :: "MatXi \<Rightarrow> RVineMatrix" where
  "make_RVineMatrix matrix = \<lparr>rvm_d = rows matrix, rvm_matrix = matrix\<rparr>"

definition get_matrix :: "RVineMatrix \<Rightarrow> MatXi" where
  "get_matrix v = rvm_matrix v"

definition get_order :: "RVineMatrix \<Rightarrow> VecXi" where
  "get_order v = vec_reverse (diagonal (colwise_reverse (rvm_matrix v)))"

definition construct_d_vine_matrix :: "VecXi \<Rightarrow> MatXi" where
  "construct_d_vine_matrix order =
     (let d = length order;
          vine_matrix = Constant d d 0;
          vine_matrix = for_loop 0 d (\<lambda>i vm.
            set_coeff vm (d - 1 - i) i (order ! (d - 1 - i))) vine_matrix;
          vine_matrix = for_loop 1 d (\<lambda>i vm.
            for_loop 0 i (\<lambda>j vm'.
              set_coeff vm' (d - 1 - i) j (order ! (i - j - 1))) vm) vine_matrix
      in vine_matrix)"

text \<open>
  Modelled from the spec: \<^verbatim>\<open>stl_tools::seq_int\<close> and \<^verbatim>\<open>stl_tools::reverse\<close> are called
  by \<^verbatim>\<open>in_natural_order\<close> but defined outside the sources at hand.  The specification
  and the comment at the call say that together they build the label sequence
  \<open>(d, d-1, ..., 1)\<close>: \<open>seq_int 1 d\<close> is \<open>1, ..., d\<close> and \<open>stl_reverse\<close> reverses it.
\<close>

definition seq_int :: "nat \<Rightarrow> nat \<Rightarrow> int list" where
  "seq_int from n = map (\<lambda>k. int (from + k)) [0..<n]"

definition stl_reverse :: "int list \<Rightarrow> int list" where
  "stl_reverse ivec = rev ivec"

definition in_natural_order :: "RVineMatrix \<Rightarrow> MatXi" where
  "in_natural_order v =
     (let ivec = stl_reverse (seq_int 1 (rvm_d v));
          new_labels = ivec
      in relabel_elements (rvm_matrix v) new_labels)"

definition get_max_matrix :: "RVineMatrix \<Rightarrow> MatXi" where
  "get_max_matrix v =
     (let max_matrix = in_natural_order v
      in for_loop 0 (rvm_d v - 1) (\<lambda>i mm.
           for_loop 0 (rvm_d v - i - 1) (\<lambda>j mm'.
             set_coeff mm' (i + 1) j (maxCoeff (block mm' i j 2 1))) mm)
         max_matrix)"

definition get_needed_hfunc1 :: "RVineMatrix \<Rightarrow> MatXb" where
  "get_needed_hfunc1 v =
     (let needed_hfunc1 = Constant (rvm_d v) (rvm_d v) False;
          no_matrix = in_natural_order v;
          max_matrix = get_max_matrix v
      in for_loop 1 (rvm_d v - 1) (\<lambda>i needed.
           (let j = rvm_d v - i;
                isnt_mat_j = array_ne (block no_matrix 0 0 j i) (int j);
                is_max_j = array_eq (block max_matrix 0 0 j i) (int j);
                is_different = array_and isnt_mat_j is_max_j
            in set_block needed 0 i j 1 (rowwise_any is_different)))
         needed_hfunc1)"

definition get_needed_hfunc2 :: "RVineMatrix \<Rightarrow> MatXb" where
  "get_needed_hfunc2 v =
     (let needed_hfunc2 = Constant (rvm_d v) (rvm_d v) False;
          needed_hfunc2 =
            set_block needed_hfunc2 0 0 (rvm_d v - 1) 1 (Constant (rvm_d v - 1) 1 True);
          no_matrix = in_natural_order v;
          max_matrix = get_max_matrix v
      in for_loop 1 (rvm_d v - 1) (\<lambda>i needed.
           (let j = rvm_d v - i;
                needed = set_block needed 0 i (rvm_d v - i) 1 (Constant (rvm_d v - i) 1 True);
                is_mat_j = array_eq (block no_matrix (j - 1) 0 1 i) (int j);
                is_max_j = array_eq (block max_matrix (j - 1) 0 1 i) (int j)
            in set_coeff needed (j - 1) i (any (array_and is_mat_j is_max_j))))
         needed_hfunc2)"

section \<open>Basic facts about loops and matrices\<close>

lemma for_loop_done: "n \<le> i \<Longrightarrow> for_loop i n body s = s"
  by (subst for_loop.simps) simp

lemma for_loop_step: "i < n \<Longrightarrow> for_loop i n body s = for_loop (Suc i) n body (body i s)"
  by (subst for_loop.simps) simp

lemma for_loop_Suc: "lo \<le> n \<Longrightarrow> for_loop lo (Suc n) body s = body n (for_loop lo n body s)"
proof (induction "n - lo" arbitrary: lo s)
  case 0
  then have "lo = n" by simp
  then show ?case by (simp add: for_loop_step for_loop_done)
next
  case (Suc k)
  then have lt: "lo < n" and k: "k = n - Suc lo" by simp_all
  have "for_loop lo (Suc n) body s = for_loop (Suc lo) (Suc n) body (body lo s)"
    using lt by (simp add: for_loop_step)
  also have "\<dots> = body n (for_loop (Suc lo) n body (body lo s))"
    using Suc.hyps(1) [OF k] lt by simp
  also have "\<dots> = body n (for_loop lo n body s)"
    using lt by (simp add: for_loop_step)
  finally show ?case .
qed

lemma dims_length: "dims m r c \<Longrightarrow> length m = r"
  by (simp add: dims_def)

lemma dims_row: "dims m r c \<Longrightarrow> i < r \<Longrightarrow> length (m ! i) = c"
  by (simp add: dims_def list_all_length)

lemma dims_Constant: "dims (Constant r c v) r c"
  by (simp add: dims_def Constant_def list_all_length)

lemma coeff_Constant: "i < r \<Longrightarrow> j < c \<Longrightarrow> coeff (Constant r c v) i j = v"
  by (simp add: coeff_def Constant_def)

lemma dims_set_coeff: "dims m r c \<Longrightarrow> dims (set_coeff m i j v) r c"
proof -
  assume d: "dims m r c"
  have "length ((set_coeff m i j v) ! k) = c" if "k < r" for k
    using d that by (cases "k = i") (simp_all add: dims_def set_coeff_def list_all_length)
  then show ?thesis using d by (simp add: dims_def list_all_length set_coeff_def)
qed

lemma coeff_set_coeff:
  "dims m r c \<Longrightarrow> i < r \<Longrightarrow> j < c \<Longrightarrow>
   coeff (set_coeff m i j v) i' j' = (if i' = i \<and> j' = j then v else coeff m i' j')"
  by (auto simp: dims_def set_coeff_def coeff_def list_all_length nth_list_update)

lemma mat_eqI:
  assumes "dims a r c" and "dims b r c"
    and "\<And>i j. i < r \<Longrightarrow> j < c \<Longrightarrow> coeff a i j = coeff b i j"
  shows "a = b"
proof (rule nth_equalityI)
  show "length a = length b" using assms(1,2) by (simp add: dims_def)
next
  fix i assume "i < length a"
  then have i: "i < r" using assms(1) by (simp add: dims_def)
  show "a ! i = b ! i"
  proof (rule nth_equalityI)
    show "length (a ! i) = length (b ! i)"
      using dims_row [OF assms(1) i] dims_row [OF assms(2) i] by simp
  next
    fix j assume "j < length (a ! i)"
    then have "j < c" using dims_row [OF assms(1) i] by simp
    from assms(3) [OF i this] show "a ! i ! j = b ! i ! j" by (simp add: coeff_def)
  qed
qed

lemma fill_row:
  assumes "dims m r c" and "i < r" and "c0 + n \<le> c"
  shows "dims (for_loop 0 n (\<lambda>j m'. set_coeff m' i (c0 + j) (f j)) m) r c \<and>
         (\<forall>i' j'. coeff (for_loop 0 n (\<lambda>j m'. set_coeff m' i (c0 + j) (f j)) m) i' j' =
            (if i' = i \<and> c0 \<le> j' \<and> j' < c0 + n then f (j' - c0) else coeff m i' j'))"
  using assms(3)
proof (induction n)
  case 0
  then show ?case using assms(1) by (auto simp: for_loop_done)
next
  case (Suc n)
  let ?s = "for_loop 0 n (\<lambda>j m'. set_coeff m' i (c0 + j) (f j)) m"
  from Suc have d: "dims ?s r c"
    and c: "\<And>i' j'. coeff ?s i' j' =
            (if i' = i \<and> c0 \<le> j' \<and> j' < c0 + n then f (j' - c0) else coeff m i' j')"
    by simp_all
  have lt: "c0 + n < c" using Suc.prems by simp
  show ?case
    by (auto simp: for_loop_Suc dims_set_coeff [OF d] coeff_set_coeff [OF d assms(2) lt] c)
qed

section \<open>The scan of relabel_one\<close>

lemma relabel_one_from_absent:
  "(\<And>k. i \<le> k \<Longrightarrow> k < length old_labels \<Longrightarrow> old_labels ! k \<noteq> x) \<Longrightarrow>
   relabel_one_from i x old_labels new_labels = 0"
proof (induction i x old_labels new_labels rule: relabel_one_from.induct)
  case (1 i x old_labels new_labels)
  show ?case
  proof (cases "i < length old_labels")
    case True
    with "1.prems" [of i] have ne: "x \<noteq> old_labels ! i" by auto
    have "relabel_one_from (Suc i) x old_labels new_labels = 0"
      using "1.IH" [OF True ne] "1.prems" by simp
    then show ?thesis using True ne by (subst relabel_one_from.simps) simp
  next
    case False
    then show ?thesis by (subst relabel_one_from.simps) simp
  qed
qed

lemma relabel_one_from_first:
  "i \<le> k \<Longrightarrow> k < length old_labels \<Longrightarrow> old_labels ! k = x \<Longrightarrow>
   (\<And>k'. i \<le> k' \<Longrightarrow> k' < k \<Longrightarrow> old_labels ! k' \<noteq> x) \<Longrightarrow>
   relabel_one_from i x old_labels new_labels = new_labels ! k"
proof (induction i x old_labels new_labels rule: relabel_one_from.induct)
  case (1 i x old_labels new_labels)
  from "1.prems"(1,2) have lt: "i < length old_labels" by simp
  show ?case
  proof (cases "x = old_labels ! i")
    case True
    have "i = k"
    proof (rule ccontr)
      assume "i \<noteq> k"
      with "1.prems"(1) have "i < k" by simp
      from "1.prems"(4) [OF le_refl this] True show False by simp
    qed
    then show ?thesis using lt True by (subst relabel_one_from.simps) simp
  next
    case False
    with "1.prems"(1,3) have "Suc i \<le> k" by (cases "i = k") auto
    then have "relabel_one_from (Suc i) x old_labels new_labels = new_labels ! k"
      using "1.IH" [OF lt False] "1.prems" by simp
    then show ?thesis using lt False by (subst relabel_one_from.simps) simp
  qed
qed

lemma relabel_one_absent:
  "x \<notin> set old_labels \<Longrightarrow> relabel_one x old_labels new_labels = 0"
  unfolding relabel_one_def by (rule relabel_one_from_absent) auto

lemma relabel_one_first:
  "k < length old_labels \<Longrightarrow> old_labels ! k = x \<Longrightarrow>
   (\<And>k'. k' < k \<Longrightarrow> old_labels ! k' \<noteq> x) \<Longrightarrow>
   relabel_one x old_labels new_labels = new_labels ! k"
  unfolding relabel_one_def by (rule relabel_one_from_first) auto

lemma first_index_ex:
  "x \<in> set xs \<Longrightarrow> \<exists>k<length xs. xs ! k = x \<and> (\<forall>k'<k. xs ! k' \<noteq> x)"
proof -
  assume "x \<in> set xs"
  then obtain n where n: "n < length xs \<and> xs ! n = x" by (auto simp: in_set_conv_nth)
  define k where "k = (LEAST n. n < length xs \<and> xs ! n = x)"
  have "k < length xs \<and> xs ! k = x" unfolding k_def using n by (rule LeastI)
  moreover have "\<forall>k'<k. xs ! k' \<noteq> x"
  proof (intro allI impI notI)
    fix k' assume "k' < k" "xs ! k' = x"
    moreover from this have "k' < length xs" using \<open>k < length xs \<and> xs ! k = x\<close> by simp
    ultimately have "k \<le> k'" unfolding k_def by (intro Least_le) simp
    with \<open>k' < k\<close> show False by simp
  qed
  ultimately show ?thesis by blast
qed

lemma relabel_one_in_new:
  assumes "x \<in> set old_labels" and "length old_labels \<le> length new_labels"
  shows "relabel_one x old_labels new_labels \<in> set new_labels"
proof -
  from first_index_ex [OF assms(1)] obtain k where k: "k < length old_labels"
    "old_labels ! k = x" "\<forall>k'<k. old_labels ! k' \<noteq> x" by blast
  then have "relabel_one x old_labels new_labels = new_labels ! k"
    by (intro relabel_one_first) auto
  then show ?thesis using k(1) assms(2) by simp
qed

text \<open>
  Claim C9, as the code has it.  For label vectors of equal length, \<open>relabel_one\<close>
  returns the entry of \<open>new_labels\<close> at the first position where \<open>old_labels\<close> holds
  \<open>x\<close>, and it returns the sentinel \<open>0\<close> when \<open>x\<close> occurs nowhere in \<open>old_labels\<close>; the
  result is an integer in every case, no error is signalled.  The sentinel tells that \<open>x\<close>
  is absent only when \<open>0\<close> is not itself one of the new labels.
\<close>

theorem relabel_one_sentinel:
  assumes "length old_labels = length new_labels"
  shows "(\<forall>k<length old_labels. old_labels ! k = x \<and> (\<forall>k'<k. old_labels ! k' \<noteq> x) \<longrightarrow>
            relabel_one x old_labels new_labels = new_labels ! k) \<and>
         (x \<notin> set old_labels \<longrightarrow> relabel_one x old_labels new_labels = 0) \<and>
         (0 \<notin> set new_labels \<longrightarrow> relabel_one x old_labels new_labels = 0 \<longrightarrow>
            x \<notin> set old_labels)"
proof (intro conjI allI impI)
  fix k assume "k < length old_labels"
    and "old_labels ! k = x \<and> (\<forall>k'<k. old_labels ! k' \<noteq> x)"
  then show "relabel_one x old_labels new_labels = new_labels ! k"
    by (intro relabel_one_first) auto
next
  assume "x \<notin> set old_labels"
  then show "relabel_one x old_labels new_labels = 0" by (rule relabel_one_absent)
next
  assume z: "0 \<notin> set new_labels" and r: "relabel_one x old_labels new_labels = 0"
  show "x \<notin> set old_labels"
  proof
    assume "x \<in> set old_labels"
    then have "relabel_one x old_labels new_labels \<in> set new_labels"
      using assms by (intro relabel_one_in_new) simp_all
    with r z show False by simp
  qed
qed

theorem relabel_one_sentinel_witness:
  "length [3, 1, 2 :: int] = length [3, 2, 1 :: int] \<and>
   relabel_one 1 [3, 1, 2] [3, 2, 1] = 2 \<and> relabel_one 7 [3, 1, 2] [3, 2, 1] = 0"
  using relabel_one_sentinel [of "[3, 1, 2]" "[3, 2, 1]" 1]
    relabel_one_sentinel [of "[3, 1, 2]" "[3, 2, 1]" 7]
  by (simp add: nth_Cons' All_less_Suc)

text \<open>
  Claim C9 as stated ("returns \<open>0\<close> if and only if \<open>x\<close> occurs nowhere") fails when the
  label found is paired with the new label \<open>0\<close>.
\<close>

theorem relabel_one_zero_label_counterexample:
  "\<not> (relabel_one 5 [5] [0] = 0 \<longleftrightarrow> 5 \<notin> set [5 :: int])"
  by (simp add: relabel_one_def relabel_one_from.simps)

section \<open>The loops of relabel_elements\<close>

lemmas fill_row0 = fill_row [where ?c0.0 = 0, simplified]

lemma cols_colwise_reverse: "dims m d d \<Longrightarrow> cols (colwise_reverse m) = d"
  by (cases m rule: rev_cases) (simp_all add: cols_def colwise_reverse_def dims_def)

lemma diagonal_colwise_reverse:
  assumes "dims m d d"
  shows "diagonal (colwise_reverse m) = map (\<lambda>k. coeff m (d - 1 - k) k) [0..<d]"
proof -
  have len: "length m = d" using assms by (rule dims_length)
  have "coeff (colwise_reverse m) k k = coeff m (d - 1 - k) k" if "k < d" for k
    using that len by (simp add: coeff_def colwise_reverse_def rev_nth)
  moreover have "rows (colwise_reverse m) = d"
    using len by (simp add: rows_def colwise_reverse_def)
  ultimately show ?thesis
    by (simp add: diagonal_def cols_colwise_reverse [OF assms])
qed

lemma relabel_elements_loop:
  assumes "n \<le> d"
  shows "dims (for_loop 0 n (\<lambda>i nm. for_loop 0 (d - i) (\<lambda>j nm'. set_coeff nm' i j (f i j)) nm)
            (Zero d d)) d d \<and>
         (\<forall>i<d. \<forall>j<d. coeff (for_loop 0 n (\<lambda>i nm. for_loop 0 (d - i)
              (\<lambda>j nm'. set_coeff nm' i j (f i j)) nm) (Zero d d)) i j =
            (if i < n \<and> j < d - i then f i j else 0))"
  using assms
proof (induction n)
  case 0
  then show ?case by (simp add: for_loop_done Zero_def dims_Constant coeff_Constant)
next
  case (Suc n)
  let ?s = "for_loop 0 n (\<lambda>i nm. for_loop 0 (d - i) (\<lambda>j nm'. set_coeff nm' i j (f i j)) nm)
              (Zero d d)"
  from Suc have d: "dims ?s d d"
    and c: "\<And>i j. i < d \<Longrightarrow> j < d \<Longrightarrow> coeff ?s i j = (if i < n \<and> j < d - i then f i j else 0)"
    and n: "n < d" by simp_all
  have le: "d - n \<le> d" by simp
  note row = fill_row0 [OF d n le, of "f n"]
  have step: "for_loop 0 (Suc n)
        (\<lambda>i nm. for_loop 0 (d - i) (\<lambda>j nm'. set_coeff nm' i j (f i j)) nm) (Zero d d) =
      for_loop 0 (d - n) (\<lambda>j nm'. set_coeff nm' n j (f n j)) ?s"
    by (simp add: for_loop_Suc)
  show ?case
    unfolding step using row c by (auto simp: less_Suc_eq)
qed

lemma relabel_elements_cells:
  assumes "dims m d d"
  shows "dims (relabel_elements m new_labels) d d"
    and "i < d \<Longrightarrow> j < d \<Longrightarrow> coeff (relabel_elements m new_labels) i j =
           (if i + j < d
            then relabel_one (coeff m i j) (map (\<lambda>k. coeff m (d - 1 - k) k) [0..<d]) new_labels
            else 0)"
  using relabel_elements_loop [of d d "\<lambda>i j. relabel_one (coeff m i j)
      (map (\<lambda>k. coeff m (d - 1 - k) k) [0..<d]) new_labels"]
  by (auto simp: relabel_elements_def Let_def rows_def dims_length [OF assms]
      diagonal_colwise_reverse [OF assms])

section \<open>Natural order\<close>

lemma natural_labels_length: "length (stl_reverse (seq_int 1 d)) = d"
  by (simp add: stl_reverse_def seq_int_def)

lemma natural_labels_nth: "k < d \<Longrightarrow> stl_reverse (seq_int 1 d) ! k = int d - int k"
  by (simp add: stl_reverse_def seq_int_def rev_nth)

lemma natural_labels_distinct: "distinct (stl_reverse (seq_int 1 d))"
  by (simp add: stl_reverse_def seq_int_def distinct_map inj_on_def)

lemma natural_labels_nonzero: "0 \<notin> set (stl_reverse (seq_int 1 d))"
  by (auto simp: stl_reverse_def seq_int_def)

lemma in_natural_order_cells:
  assumes "dims M d d"
  shows "dims (in_natural_order (make_RVineMatrix M)) d d"
    and "i < d \<Longrightarrow> j < d \<Longrightarrow> coeff (in_natural_order (make_RVineMatrix M)) i j =
           (if i + j < d
            then relabel_one (coeff M i j) (map (\<lambda>k. coeff M (d - 1 - k) k) [0..<d])
                   (stl_reverse (seq_int 1 d))
            else 0)"
  using relabel_elements_cells [OF assms]
  by (simp_all add: in_natural_order_def make_RVineMatrix_def Let_def rows_def
      dims_length [OF assms])

text \<open>
  Claim C1.  For a \<open>d\<close> by \<open>d\<close> structure matrix whose diagonal cells \<open>(d-1-i, i)\<close> hold
  pairwise distinct labels, the diagonal of \<open>in_natural_order\<close>, read from the bottom row
  upward, is \<open>d, d-1, ..., 1\<close>: the cell \<open>(d-1-i, i)\<close> holds \<open>d - i\<close>, and the vector that
  the program itself reads off the diagonal is that sequence.  (Nothing is needed of the
  entries off the diagonal.)
\<close>

theorem in_natural_order_diagonal:
  assumes "dims M d d"
    and "distinct (map (\<lambda>i. coeff M (d - 1 - i) i) [0..<d])"
  shows "(\<forall>i<d. coeff (in_natural_order (make_RVineMatrix M)) (d - 1 - i) i = int d - int i) \<and>
         diagonal (colwise_reverse (in_natural_order (make_RVineMatrix M))) =
           map (\<lambda>i. int d - int i) [0..<d]"
proof -
  let ?old = "map (\<lambda>i. coeff M (d - 1 - i) i) [0..<d]"
  let ?N = "in_natural_order (make_RVineMatrix M)"
  have cell: "coeff ?N (d - 1 - i) i = int d - int i" if i: "i < d" for i
  proof -
    have "relabel_one (coeff M (d - 1 - i) i) ?old (stl_reverse (seq_int 1 d)) =
        stl_reverse (seq_int 1 d) ! i"
    proof (rule relabel_one_first)
      show "i < length ?old" using i by simp
      show "?old ! i = coeff M (d - 1 - i) i" using i by simp
      fix k' assume k': "k' < i"
      have "?old ! k' = ?old ! i \<longleftrightarrow> k' = i"
        using assms(2) i k' by (intro nth_eq_iff_index_eq) simp_all
      with k' have "?old ! k' \<noteq> ?old ! i" by simp
      then show "?old ! k' \<noteq> coeff M (d - 1 - i) i" using i k' by simp
    qed
    then show ?thesis
      using i in_natural_order_cells(2) [OF assms(1), of "d - 1 - i" i]
        natural_labels_nth [OF i]
      by simp
  qed
  moreover have "diagonal (colwise_reverse ?N) = map (\<lambda>i. int d - int i) [0..<d]"
    using cell by (simp add: diagonal_colwise_reverse [OF in_natural_order_cells(1) [OF assms(1)]])
  ultimately show ?thesis by blast
qed

theorem in_natural_order_diagonal_witness:
  "dims [[2, 2, 2], [1, 1, 0], [3, 0, 0 :: int]] 3 3 \<and>
   distinct (map (\<lambda>i. coeff [[2, 2, 2], [1, 1, 0], [3, 0, 0 :: int]] (3 - 1 - i) i) [0..<3]) \<and>
   diagonal (colwise_reverse (in_natural_order
     (make_RVineMatrix [[2, 2, 2], [1, 1, 0], [3, 0, 0]]))) = [3, 2, 1]"
proof -
  have d: "dims [[2, 2, 2], [1, 1, 0], [3, 0, 0 :: int]] 3 3"
    by (simp add: dims_def)
  have upt3: "[0..<3] = [0, 1, 2]" by (simp add: upt_rec)
  have dist: "distinct (map (\<lambda>i. coeff [[2, 2, 2], [1, 1, 0], [3, 0, 0 :: int]] (3 - 1 - i) i)
      [0..<3])"
    by (simp add: upt3 coeff_def)
  from in_natural_order_diagonal [OF d dist] d dist show ?thesis
    by (simp add: upt3)
qed

section \<open>Idempotence of the natural order\<close>

lemma relabel_one_first_le:
  assumes "k < length old_labels"
  shows "\<exists>q\<le>k. relabel_one (old_labels ! k) old_labels new_labels = new_labels ! q"
proof -
  from first_index_ex [of "old_labels ! k" old_labels] assms
  obtain q where q: "q < length old_labels" "old_labels ! q = old_labels ! k"
    "\<forall>k'<q. old_labels ! k' \<noteq> old_labels ! k" by auto
  have "q \<le> k"
  proof (rule ccontr)
    assume "\<not> q \<le> k"
    then have "k < q" by simp
    with q(3) show False by blast
  qed
  moreover have "relabel_one (old_labels ! k) old_labels new_labels = new_labels ! q"
    using q by (intro relabel_one_first) auto
  ultimately show ?thesis by blast
qed

lemma relabel_one_twice:
  assumes len: "length old_labels = length new_labels"
    and dist: "distinct new_labels" and nz: "0 \<notin> set new_labels"
  shows "relabel_one (relabel_one x old_labels new_labels)
           (map (\<lambda>y. relabel_one y old_labels new_labels) old_labels) new_labels =
         relabel_one x old_labels new_labels"
proof (cases "x \<in> set old_labels")
  case False
  then have fx: "relabel_one x old_labels new_labels = 0" by (rule relabel_one_absent)
  have "0 \<notin> set (map (\<lambda>y. relabel_one y old_labels new_labels) old_labels)"
  proof
    assume "0 \<in> set (map (\<lambda>y. relabel_one y old_labels new_labels) old_labels)"
    then obtain y where "y \<in> set old_labels" "relabel_one y old_labels new_labels = 0"
      by auto
    moreover from this(1) have "relabel_one y old_labels new_labels \<in> set new_labels"
      using len by (intro relabel_one_in_new) simp_all
    ultimately show False using nz by simp
  qed
  then show ?thesis unfolding fx by (rule relabel_one_absent)
next
  case True
  from first_index_ex [OF this] obtain p where p: "p < length old_labels"
    "old_labels ! p = x" "\<forall>k'<p. old_labels ! k' \<noteq> x" by blast
  have fx: "relabel_one x old_labels new_labels = new_labels ! p"
    using p by (intro relabel_one_first) auto
  show ?thesis
    unfolding fx
  proof (rule relabel_one_first)
    show "p < length (map (\<lambda>y. relabel_one y old_labels new_labels) old_labels)"
      using p(1) by simp
    show "map (\<lambda>y. relabel_one y old_labels new_labels) old_labels ! p = new_labels ! p"
      using p(1,2) fx by simp
    fix k' assume k': "k' < p"
    then have kl: "k' < length old_labels" using p(1) by simp
    from relabel_one_first_le [OF kl, of new_labels] obtain q where q: "q \<le> k'"
      "relabel_one (old_labels ! k') old_labels new_labels = new_labels ! q" by blast
    have "new_labels ! q \<noteq> new_labels ! p"
      using dist q(1) k' p(1) len by (simp add: nth_eq_iff_index_eq)
    then show "map (\<lambda>y. relabel_one y old_labels new_labels) old_labels ! k' \<noteq> new_labels ! p"
      using kl q(2) by simp
  qed
qed

text \<open>
  Claim C6.  Bringing a \<open>d\<close> by \<open>d\<close> structure matrix into natural order twice gives the
  same matrix as doing it once.  (This holds for every square matrix, whatever its
  entries.)
\<close>

theorem in_natural_order_idempotent:
  assumes "dims M d d"
  shows "in_natural_order (make_RVineMatrix (in_natural_order (make_RVineMatrix M))) =
         in_natural_order (make_RVineMatrix M)"
proof -
  let ?N = "in_natural_order (make_RVineMatrix M)"
  let ?new = "stl_reverse (seq_int 1 d)"
  let ?old = "map (\<lambda>k. coeff M (d - 1 - k) k) [0..<d]"
  let ?f = "\<lambda>y. relabel_one y ?old ?new"
  have dN: "dims ?N d d" by (rule in_natural_order_cells(1) [OF assms])
  have oldN: "map (\<lambda>k. coeff ?N (d - 1 - k) k) [0..<d] = map ?f ?old"
    using in_natural_order_cells(2) [OF assms] by (simp add: comp_def)
  show ?thesis
  proof (rule mat_eqI [OF in_natural_order_cells(1) [OF dN] dN])
    fix i j assume ij: "i < d" "j < d"
    show "coeff (in_natural_order (make_RVineMatrix ?N)) i j = coeff ?N i j"
    proof (cases "i + j < d")
      case True
      have "relabel_one (?f (coeff M i j)) (map ?f ?old) ?new = ?f (coeff M i j)"
        by (rule relabel_one_twice [OF _ natural_labels_distinct natural_labels_nonzero])
          (use natural_labels_length [of d] in simp)
      then show ?thesis
        using True ij in_natural_order_cells(2) [OF dN ij] in_natural_order_cells(2) [OF assms ij]
        by (simp only: oldN if_True)
    next
      case False
      then show ?thesis
        using ij in_natural_order_cells(2) [OF dN ij] in_natural_order_cells(2) [OF assms ij]
        by simp
    qed
  qed
qed

theorem in_natural_order_idempotent_witness:
  "dims [[2, 2, 2], [1, 1, 0], [3, 0, 0 :: int]] 3 3 \<and>
   in_natural_order (make_RVineMatrix [[2, 2, 2], [1, 1, 0], [3, 0, 0]]) =
     [[1, 1, 1], [2, 2, 0], [3, 0, 0]] \<and>
   in_natural_order (make_RVineMatrix (in_natural_order
     (make_RVineMatrix [[2, 2, 2], [1, 1, 0], [3, 0, 0]]))) = [[1, 1, 1], [2, 2, 0], [3, 0, 0]]"
proof -
  have d: "dims [[2, 2, 2], [1, 1, 0], [3, 0, 0 :: int]] 3 3"
    by (simp add: dims_def)
  have once: "in_natural_order (make_RVineMatrix [[2, 2, 2], [1, 1, 0], [3, 0, 0]]) =
      [[1, 1, 1], [2, 2, 0], [3, 0, 0]]"
    by code_simp
  from in_natural_order_idempotent [OF d] d once show ?thesis by simp
qed

section \<open>The D-vine matrix\<close>

lemma d_vine_diagonal_loop:
  assumes "n \<le> d" and "dims m d d"
  shows "dims (for_loop 0 n (\<lambda>i vm. set_coeff vm (d - 1 - i) i (f i)) m) d d \<and>
         (\<forall>r c. coeff (for_loop 0 n (\<lambda>i vm. set_coeff vm (d - 1 - i) i (f i)) m) r c =
            (if r + c = d - 1 \<and> c < n then f c else coeff m r c))"
  using assms(1)
proof (induction n)
  case 0
  then show ?case using assms(2) by (simp add: for_loop_done)
next
  case (Suc n)
  let ?s = "for_loop 0 n (\<lambda>i vm. set_coeff vm (d - 1 - i) i (f i)) m"
  from Suc have d: "dims ?s d d"
    and c: "\<And>r c. coeff ?s r c = (if r + c = d - 1 \<and> c < n then f c else coeff m r c)"
    and n: "n < d" by simp_all
  have r: "d - 1 - n < d" using n by simp
  note dd = dims_set_coeff [OF d, of "d - 1 - n" n "f n"]
  note cc = coeff_set_coeff [OF d r n, of "f n"]
  show ?case
    using n dd cc c by (auto simp: for_loop_Suc)
qed

lemma d_vine_below_loop:
  assumes "n \<le> d" and "dims m d d"
  shows "dims (for_loop 1 n (\<lambda>i vm. for_loop 0 i
            (\<lambda>j vm'. set_coeff vm' (d - 1 - i) j (f i j)) vm) m) d d \<and>
         (\<forall>r c. coeff (for_loop 1 n (\<lambda>i vm. for_loop 0 i
              (\<lambda>j vm'. set_coeff vm' (d - 1 - i) j (f i j)) vm) m) r c =
            (if r < d \<and> r + c < d - 1 \<and> d - 1 - r < n then f (d - 1 - r) c else coeff m r c))"
  using assms(1)
proof (induction n)
  case 0
  then show ?case using assms(2) by (simp add: for_loop_done)
next
  case (Suc n)
  let ?B = "\<lambda>i vm. for_loop 0 i (\<lambda>j vm'. set_coeff vm' (d - 1 - i) j (f i j)) vm"
  let ?s = "for_loop 1 n ?B m"
  show ?case
  proof (cases "n = 0")
    case True
    then show ?thesis using assms(2) by (auto simp: for_loop_done)
  next
    case False
    with Suc have d: "dims ?s d d"
      and c: "\<And>r c. coeff ?s r c =
        (if r < d \<and> r + c < d - 1 \<and> d - 1 - r < n then f (d - 1 - r) c else coeff m r c)"
      and n: "n < d" "1 \<le> n" by simp_all
    have r: "d - 1 - n < d" and le: "n \<le> d" using n by simp_all
    note row = fill_row0 [OF d r le, of "f n"]
    have step: "for_loop 1 (Suc n) ?B m =
        for_loop 0 n (\<lambda>j vm'. set_coeff vm' (d - 1 - n) j (f n j)) ?s"
      using n(2) by (simp add: for_loop_Suc)
    show ?thesis
      unfolding step using row c n by (auto simp: less_Suc_eq)
  qed
qed

lemma construct_d_vine_matrix_cells:
  "dims (construct_d_vine_matrix order) (length order) (length order)"
  "r < length order \<Longrightarrow> c < length order \<Longrightarrow>
   coeff (construct_d_vine_matrix order) r c =
     (if r + c = length order - 1 then order ! r
      else if r + c < length order - 1 then order ! (length order - 1 - r - c - 1)
      else 0)"
proof -
  let ?d = "length order"
  let ?m1 = "for_loop 0 ?d (\<lambda>i vm. set_coeff vm (?d - 1 - i) i (order ! (?d - 1 - i)))
    (Constant ?d ?d 0)"
  note l1 = d_vine_diagonal_loop [OF le_refl dims_Constant, of ?d "\<lambda>i. order ! (?d - 1 - i)" 0]
  then have d1: "dims ?m1 ?d ?d" by simp
  note l2 = d_vine_below_loop [OF le_refl d1, of "\<lambda>i j. order ! (i - j - 1)"]
  show "dims (construct_d_vine_matrix order) ?d ?d"
    using l2 by (simp add: construct_d_vine_matrix_def Let_def)
  assume rc: "r < ?d" "c < ?d"
  have "r + c = ?d - 1 \<Longrightarrow> ?d - 1 - c = r" by simp
  then show "coeff (construct_d_vine_matrix order) r c =
     (if r + c = ?d - 1 then order ! r
      else if r + c < ?d - 1 then order ! (?d - 1 - r - c - 1)
      else 0)"
    using l1 l2 rc by (auto simp: construct_d_vine_matrix_def Let_def coeff_Constant)
qed

text \<open>
  Claim C5.  Building the D-vine matrix of an order vector and reading the order back
  with \<open>get_order\<close> returns the vector unchanged.  (This holds for every vector, so for
  every permutation of \<open>1..d\<close>.)
\<close>

theorem get_order_construct_d_vine_matrix:
  "get_order (make_RVineMatrix (construct_d_vine_matrix order)) = order"
proof -
  let ?d = "length order"
  let ?m = "construct_d_vine_matrix order"
  have "rev (map (\<lambda>k. coeff ?m (?d - 1 - k) k) [0..<?d]) = order"
  proof (rule nth_equalityI)
    show "length (rev (map (\<lambda>k. coeff ?m (?d - 1 - k) k) [0..<?d])) = ?d" by simp
    fix i assume "i < length (rev (map (\<lambda>k. coeff ?m (?d - 1 - k) k) [0..<?d]))"
    then have i: "i < ?d" by simp
    then have "coeff ?m i (?d - 1 - i) = order ! i"
      by (simp add: construct_d_vine_matrix_cells(2))
    moreover have "?d - Suc i < ?d" "?d - Suc (?d - Suc i) = i" using i by simp_all
    ultimately show "rev (map (\<lambda>k. coeff ?m (?d - 1 - k) k) [0..<?d]) ! i = order ! i"
      using i by (simp add: rev_nth)
  qed
  then show ?thesis
    by (simp add: get_order_def make_RVineMatrix_def vec_reverse_def
        diagonal_colwise_reverse [OF construct_d_vine_matrix_cells(1)])
qed

lemma construct_d_vine_matrix_rule:
  "i < length order \<Longrightarrow>
   coeff (construct_d_vine_matrix order) (length order - 1 - i) i = order ! (length order - 1 - i)"
  "i < length order \<Longrightarrow> j < i \<Longrightarrow>
   coeff (construct_d_vine_matrix order) (length order - 1 - i) j = order ! (i - j - 1)"
proof -
  assume i: "i < length order"
  then show "coeff (construct_d_vine_matrix order) (length order - 1 - i) i =
      order ! (length order - 1 - i)"
    by (simp add: construct_d_vine_matrix_cells(2))
  assume j: "j < i"
  have "length order - 1 - (length order - 1 - i) - j - 1 = i - j - 1"
    using i j by simp
  moreover have "length order - 1 - i + j < length order - 1" using i j by simp
  moreover have "length order - 1 - i < length order" "j < length order" using i j by simp_all
  ultimately show "coeff (construct_d_vine_matrix order) (length order - 1 - i) j =
      order ! (i - j - 1)"
    by (simp only: construct_d_vine_matrix_cells(2)) simp
qed

text \<open>
  Claim C7, as the code has it.  For \<open>order = [1,2,3,4]\<close> the matrix built is
  \<open>[[3,2,1,1],[2,1,2,0],[1,3,0,0],[4,0,0,0]]\<close>: its diagonal read from the bottom row to
  the top is \<open>(4,3,2,1)\<close>, row 3 holds the diagonal entry \<open>4\<close> at column 0, row 2 holds \<open>1\<close> at
  column 0 and the diagonal entry \<open>3\<close> at column 1, and every cell follows the
  construction rule: \<open>order[d-1-i]\<close> at the diagonal cell \<open>(d-1-i, i)\<close> and \<open>order[i-j-1]\<close>
  at row \<open>d-1-i\<close>, column \<open>j < i\<close>.
\<close>

theorem construct_d_vine_matrix_1234:
  "construct_d_vine_matrix [1, 2, 3, 4] = [[3, 2, 1, 1], [2, 1, 2, 0], [1, 3, 0, 0], [4, 0, 0, 0]] \<and>
   diagonal (colwise_reverse (construct_d_vine_matrix [1, 2, 3, 4])) = [4, 3, 2, 1] \<and>
   (\<forall>i<4. coeff (construct_d_vine_matrix [1, 2, 3, 4]) (4 - 1 - i) i = [1, 2, 3, 4] ! (4 - 1 - i)) \<and>
   (\<forall>i<4. \<forall>j<i. coeff (construct_d_vine_matrix [1, 2, 3, 4]) (4 - 1 - i) j =
      [1, 2, 3, 4] ! (i - j - 1))"
proof (intro conjI allI impI)
  show m: "construct_d_vine_matrix [1, 2, 3, 4] =
      [[3, 2, 1, 1], [2, 1, 2, 0], [1, 3, 0, 0], [4, 0, 0, 0]]"
    by code_simp
  show "diagonal (colwise_reverse (construct_d_vine_matrix [1, 2, 3, 4])) = [4, 3, 2, 1]"
    unfolding m by code_simp
next
  fix i :: nat assume "i < 4"
  then show "coeff (construct_d_vine_matrix [1, 2, 3, 4]) (4 - 1 - i) i = [1, 2, 3, 4] ! (4 - 1 - i)"
    using construct_d_vine_matrix_rule(1) [of i "[1, 2, 3, 4]"] by (simp add: numeral_3_eq_3)
next
  fix i j :: nat assume "i < 4" "j < i"
  then show "coeff (construct_d_vine_matrix [1, 2, 3, 4]) (4 - 1 - i) j = [1, 2, 3, 4] ! (i - j - 1)"
    using construct_d_vine_matrix_rule(2) [of i "[1, 2, 3, 4]" j] by (simp add: numeral_3_eq_3)
qed

theorem construct_d_vine_matrix_1234_witness:
  "coeff (construct_d_vine_matrix [1, 2, 3, 4]) 3 0 = 4 \<and>
   coeff (construct_d_vine_matrix [1, 2, 3, 4]) 2 1 = 3 \<and>
   coeff (construct_d_vine_matrix [1, 2, 3, 4]) 2 0 = 1"
proof -
  note t = construct_d_vine_matrix_1234
  from t have a: "\<forall>i<4. coeff (construct_d_vine_matrix [1, 2, 3, 4]) (4 - 1 - i) i =
      [1, 2, 3, 4] ! (4 - 1 - i)" by blast
  from t have b: "\<forall>i<4. \<forall>j<i. coeff (construct_d_vine_matrix [1, 2, 3, 4]) (4 - 1 - i) j =
      [1, 2, 3, 4] ! (i - j - 1)" by blast
  from a [rule_format, of 0] a [rule_format, of 1] b [rule_format, of 1 0]
  show ?thesis by simp
qed

text \<open>
  The cell values that claim C7 names do not occur: row 3, column 0 is the bottom
  diagonal cell and holds \<open>4\<close>, and row 2 holds \<open>1\<close> and \<open>3\<close>.
\<close>

theorem construct_d_vine_matrix_1234_counterexample:
  "\<not> (diagonal (colwise_reverse (construct_d_vine_matrix [1, 2, 3, 4])) = [4, 3, 2, 1] \<and>
      coeff (construct_d_vine_matrix [1, 2, 3, 4]) 3 0 = 1 \<and>
      coeff (construct_d_vine_matrix [1, 2, 3, 4]) 2 0 = 2 \<and>
      coeff (construct_d_vine_matrix [1, 2, 3, 4]) 2 1 = 2)"
proof -
  have "construct_d_vine_matrix [1, 2, 3, 4] =
      [[3, 2, 1, 1], [2, 1, 2, 0], [1, 3, 0, 0], [4, 0, 0, 0]]"
    by code_simp
  then show ?thesis by (simp add: coeff_def)
qed

section \<open>The maximum matrix\<close>

lemma maxCoeff_block:
  assumes "dims m r c" and "i + 1 < r" and "j < c"
  shows "maxCoeff (block m i j 2 1) = max (coeff m i j) (coeff m (i + 1) j)"
proof -
  have len: "length m = r" using assms(1) by (rule dims_length)
  have i: "i < length m" "Suc i < length m" using assms(2) len by simp_all
  have "drop i m = m ! i # m ! Suc i # drop (Suc (Suc i)) m"
    using i by (simp add: Cons_nth_drop_Suc)
  then have two: "take 2 (drop i m) = [m ! i, m ! Suc i]"
    by (simp add: numeral_2_eq_2)
  have row: "take 1 (drop j (m ! k)) = [m ! k ! j]" if "k < r" for k
  proof -
    have "j < length (m ! k)" using dims_row [OF assms(1) that] assms(3) by simp
    then have "drop j (m ! k) = m ! k ! j # drop (Suc j) (m ! k)"
      by (simp add: Cons_nth_drop_Suc)
    then show ?thesis by simp
  qed
  have "block m i j 2 1 = [[m ! i ! j], [m ! Suc i ! j]]"
    using row [of i] row [of "Suc i"] assms(2) by (simp add: block_def two)
  then show ?thesis by (simp add: maxCoeff_def coeff_def max.commute)
qed

lemma max_row_loop:
  assumes "dims m d d" and "i + 1 < d" and "n \<le> d"
  shows "dims (for_loop 0 n (\<lambda>j mm'. set_coeff mm' (i + 1) j (maxCoeff (block mm' i j 2 1))) m)
           d d \<and>
         (\<forall>r c. coeff (for_loop 0 n
              (\<lambda>j mm'. set_coeff mm' (i + 1) j (maxCoeff (block mm' i j 2 1))) m) r c =
            (if r = i + 1 \<and> c < n then max (coeff m i c) (coeff m (i + 1) c)
             else coeff m r c))"
  using assms(3)
proof (induction n)
  case 0
  then show ?case using assms(1) by (simp add: for_loop_done)
next
  case (Suc n)
  let ?s = "for_loop 0 n (\<lambda>j mm'. set_coeff mm' (i + 1) j (maxCoeff (block mm' i j 2 1))) m"
  from Suc have d: "dims ?s d d"
    and c: "\<And>r c. coeff ?s r c =
        (if r = i + 1 \<and> c < n then max (coeff m i c) (coeff m (i + 1) c) else coeff m r c)"
    and n: "n < d" by simp_all
  have mx: "maxCoeff (block ?s i n 2 1) = max (coeff m i n) (coeff m (i + 1) n)"
    unfolding maxCoeff_block [OF d assms(2) n] using c [of i n] c [of "i + 1" n] by simp
  note dd = dims_set_coeff [OF d, of "i + 1" n "maxCoeff (block ?s i n 2 1)"]
  note cc = coeff_set_coeff [OF d assms(2) n, of "maxCoeff (block ?s i n 2 1)"]
  have step: "for_loop 0 (Suc n)
        (\<lambda>j mm'. set_coeff mm' (i + 1) j (maxCoeff (block mm' i j 2 1))) m =
      set_coeff ?s (i + 1) n (maxCoeff (block ?s i n 2 1))"
    by (simp add: for_loop_Suc)
  show ?case
    unfolding step using dd cc c mx by (auto simp: less_Suc_eq)
qed

lemma max_matrix_loop:
  assumes "dims N d d" and "n \<le> d - 1"
  shows "dims (for_loop 0 n (\<lambda>i mm. for_loop 0 (d - i - 1)
            (\<lambda>j mm'. set_coeff mm' (i + 1) j (maxCoeff (block mm' i j 2 1))) mm) N) d d \<and>
         (\<forall>r c. coeff (for_loop 0 n (\<lambda>i mm. for_loop 0 (d - i - 1)
              (\<lambda>j mm'. set_coeff mm' (i + 1) j (maxCoeff (block mm' i j 2 1))) mm) N) r c =
            (if 1 \<le> r \<and> r \<le> n \<and> r + c < d
             then max (coeff (for_loop 0 n (\<lambda>i mm. for_loop 0 (d - i - 1)
                    (\<lambda>j mm'. set_coeff mm' (i + 1) j (maxCoeff (block mm' i j 2 1))) mm) N)
                    (r - 1) c) (coeff N r c)
             else coeff N r c))"
  using assms(2)
proof (induction n)
  case 0
  then show ?case using assms(1) by (simp add: for_loop_done)
next
  case (Suc n)
  let ?B = "\<lambda>i mm. for_loop 0 (d - i - 1)
      (\<lambda>j mm'. set_coeff mm' (i + 1) j (maxCoeff (block mm' i j 2 1))) mm"
  let ?s = "for_loop 0 n ?B N"
  let ?t = "for_loop 0 (d - n - 1)
      (\<lambda>j mm'. set_coeff mm' (n + 1) j (maxCoeff (block mm' n j 2 1))) ?s"
  from Suc have d: "dims ?s d d"
    and c: "\<And>r c. coeff ?s r c =
        (if 1 \<le> r \<and> r \<le> n \<and> r + c < d then max (coeff ?s (r - 1) c) (coeff N r c)
         else coeff N r c)"
    and n: "n + 1 < d" by simp_all
  have le: "d - n - 1 \<le> d" by simp
  note row = max_row_loop [OF d n le]
  then have dt: "dims ?t d d"
    and ct: "\<And>r c. coeff ?t r c =
        (if r = n + 1 \<and> c < d - n - 1 then max (coeff ?s n c) (coeff ?s (n + 1) c)
         else coeff ?s r c)" by simp_all
  have step: "for_loop 0 (Suc n) ?B N = ?t"
    by (simp add: for_loop_Suc)
  have "coeff ?t r c =
      (if 1 \<le> r \<and> r \<le> Suc n \<and> r + c < d then max (coeff ?t (r - 1) c) (coeff N r c)
       else coeff N r c)" for r c
  proof (cases "r = n + 1")
    case True
    have "coeff ?s (n + 1) c = coeff N (n + 1) c" by (subst c) simp
    moreover have "coeff ?t n c = coeff ?s n c" by (subst ct) simp
    ultimately show ?thesis using True n by (subst ct) auto
  next
    case False
    have eq: "coeff ?t r c = coeff ?s r c" using False by (subst ct) simp
    show ?thesis
    proof (cases "1 \<le> r \<and> r \<le> n \<and> r + c < d")
      case True
      then have "coeff ?t (r - 1) c = coeff ?s (r - 1) c" by (subst ct) auto
      then show ?thesis using True eq by (subst (asm) c) simp
    next
      case False
      then show ?thesis using \<open>r \<noteq> n + 1\<close> eq by (subst (asm) c) auto
    qed
  qed
  then show ?case unfolding step using dt by blast
qed

lemma get_max_matrix_cells:
  assumes "dims M d d"
  shows "dims (get_max_matrix (make_RVineMatrix M)) d d"
    and "coeff (get_max_matrix (make_RVineMatrix M)) r c =
      (if 1 \<le> r \<and> r + c < d
       then max (coeff (get_max_matrix (make_RVineMatrix M)) (r - 1) c)
              (coeff (in_natural_order (make_RVineMatrix M)) r c)
       else coeff (in_natural_order (make_RVineMatrix M)) r c)"
proof -
  have rd: "rvm_d (make_RVineMatrix M) = d"
    using assms by (simp add: make_RVineMatrix_def rows_def dims_length)
  note l = max_matrix_loop [OF in_natural_order_cells(1) [OF assms] le_refl]
  have gm: "get_max_matrix (make_RVineMatrix M) =
      for_loop 0 (d - 1) (\<lambda>i mm. for_loop 0 (d - i - 1)
        (\<lambda>j mm'. set_coeff mm' (i + 1) j (maxCoeff (block mm' i j 2 1))) mm)
        (in_natural_order (make_RVineMatrix M))"
    by (simp add: get_max_matrix_def Let_def rd)
  show "dims (get_max_matrix (make_RVineMatrix M)) d d"
    unfolding gm using l by blast
  have "1 \<le> r \<and> r \<le> d - 1 \<and> r + c < d \<longleftrightarrow> 1 \<le> r \<and> r + c < d" by auto
  then show "coeff (get_max_matrix (make_RVineMatrix M)) r c =
      (if 1 \<le> r \<and> r + c < d
       then max (coeff (get_max_matrix (make_RVineMatrix M)) (r - 1) c)
              (coeff (in_natural_order (make_RVineMatrix M)) r c)
       else coeff (in_natural_order (make_RVineMatrix M)) r c)"
    unfolding gm using l by simp
qed

text \<open>
  Claim C2.  For a \<open>d\<close> by \<open>d\<close> structure matrix, row 0 of the maximum matrix is row 0 of
  the natural-order matrix, and every cell \<open>(i, j)\<close> of the triangle with \<open>i \<ge> 1\<close> (that is,
  \<open>i + j \<le> d - 1\<close>) holds the maximum of the cell above it in the maximum matrix and of
  the natural-order entry at \<open>(i, j)\<close>.
\<close>

theorem get_max_matrix_running_maximum:
  assumes "dims M d d"
  shows "(\<forall>j<d. coeff (get_max_matrix (make_RVineMatrix M)) 0 j =
            coeff (in_natural_order (make_RVineMatrix M)) 0 j) \<and>
         (\<forall>i j. 1 \<le> i \<and> i + j < d \<longrightarrow>
            coeff (get_max_matrix (make_RVineMatrix M)) i j =
              max (coeff (get_max_matrix (make_RVineMatrix M)) (i - 1) j)
                (coeff (in_natural_order (make_RVineMatrix M)) i j))"
proof (intro conjI allI impI)
  fix j assume "j < d"
  show "coeff (get_max_matrix (make_RVineMatrix M)) 0 j =
      coeff (in_natural_order (make_RVineMatrix M)) 0 j"
    by (subst get_max_matrix_cells(2) [OF assms]) simp
next
  fix i j assume "1 \<le> i \<and> i + j < d"
  then show "coeff (get_max_matrix (make_RVineMatrix M)) i j =
      max (coeff (get_max_matrix (make_RVineMatrix M)) (i - 1) j)
        (coeff (in_natural_order (make_RVineMatrix M)) i j)"
    by (subst get_max_matrix_cells(2) [OF assms]) simp
qed

theorem get_max_matrix_running_maximum_witness:
  "dims [[2, 1, 1, 1], [1, 2, 2, 0], [3, 3, 0, 0], [4, 0, 0, 0 :: int]] 4 4 \<and>
   in_natural_order (make_RVineMatrix [[2, 1, 1, 1], [1, 2, 2, 0], [3, 3, 0, 0], [4, 0, 0, 0]]) =
     [[2, 1, 1, 1], [1, 2, 2, 0], [3, 3, 0, 0], [4, 0, 0, 0]] \<and>
   coeff (get_max_matrix
     (make_RVineMatrix [[2, 1, 1, 1], [1, 2, 2, 0], [3, 3, 0, 0], [4, 0, 0, 0]])) 0 0 = 2 \<and>
   coeff (get_max_matrix
     (make_RVineMatrix [[2, 1, 1, 1], [1, 2, 2, 0], [3, 3, 0, 0], [4, 0, 0, 0]])) 1 0 = 2"
proof -
  let ?M = "[[2, 1, 1, 1], [1, 2, 2, 0], [3, 3, 0, 0], [4, 0, 0, 0 :: int]]"
  have d: "dims ?M 4 4" by (simp add: dims_def)
  have no: "in_natural_order (make_RVineMatrix ?M) = ?M" by code_simp
  note t = get_max_matrix_running_maximum [OF d]
  from t have "coeff (get_max_matrix (make_RVineMatrix ?M)) 0 0 =
      coeff (in_natural_order (make_RVineMatrix ?M)) 0 0" by simp
  moreover from t have "coeff (get_max_matrix (make_RVineMatrix ?M)) 1 0 =
      max (coeff (get_max_matrix (make_RVineMatrix ?M)) (1 - 1) 0)
        (coeff (in_natural_order (make_RVineMatrix ?M)) 1 0)" by simp
  ultimately show ?thesis using d no by (simp add: coeff_def)
qed

text \<open>
  Claim C8.  The maximum matrix of a \<open>d\<close> by \<open>d\<close> structure matrix does not decrease down
  a column of the triangle: for rows \<open>i < i'\<close> of column \<open>j\<close> with \<open>i' + j \<le> d - 1\<close> (then
  \<open>(i, j)\<close> is in the triangle too), the entry at \<open>(i, j)\<close> is at most the entry at
  \<open>(i', j)\<close>.
\<close>

theorem get_max_matrix_monotone:
  assumes "dims M d d"
  shows "\<forall>j i i'. i < i' \<and> i' + j < d \<longrightarrow>
           coeff (get_max_matrix (make_RVineMatrix M)) i j \<le>
           coeff (get_max_matrix (make_RVineMatrix M)) i' j"
proof (intro allI impI)
  fix j i i'
  let ?X = "get_max_matrix (make_RVineMatrix M)"
  have "i \<le> k \<Longrightarrow> k + j < d \<Longrightarrow> coeff ?X i j \<le> coeff ?X k j" for k
  proof (induction k)
    case 0
    then show ?case by simp
  next
    case (Suc k)
    show ?case
    proof (cases "i = Suc k")
      case True
      then show ?thesis by simp
    next
      case False
      with Suc have "coeff ?X i j \<le> coeff ?X k j" by simp
      moreover have "coeff ?X (Suc k) j =
          max (coeff ?X k j) (coeff (in_natural_order (make_RVineMatrix M)) (Suc k) j)"
        using Suc.prems(2) by (subst get_max_matrix_cells(2) [OF assms]) simp
      ultimately show ?thesis by simp
    qed
  qed
  moreover assume "i < i' \<and> i' + j < d"
  ultimately show "coeff ?X i j \<le> coeff ?X i' j" by simp
qed

theorem get_max_matrix_monotone_witness:
  "dims [[2, 1, 1, 1], [1, 2, 2, 0], [3, 3, 0, 0], [4, 0, 0, 0 :: int]] 4 4 \<and>
   get_max_matrix (make_RVineMatrix [[2, 1, 1, 1], [1, 2, 2, 0], [3, 3, 0, 0], [4, 0, 0, 0]]) =
     [[2, 1, 1, 1], [2, 2, 2, 0], [3, 3, 0, 0], [4, 0, 0, 0]] \<and>
   coeff (get_max_matrix
     (make_RVineMatrix [[2, 1, 1, 1], [1, 2, 2, 0], [3, 3, 0, 0], [4, 0, 0, 0]])) 0 0 \<le>
   coeff (get_max_matrix
     (make_RVineMatrix [[2, 1, 1, 1], [1, 2, 2, 0], [3, 3, 0, 0], [4, 0, 0, 0]])) 3 0"
proof -
  let ?M = "[[2, 1, 1, 1], [1, 2, 2, 0], [3, 3, 0, 0], [4, 0, 0, 0 :: int]]"
  have d: "dims ?M 4 4" by (simp add: dims_def)
  have mx: "get_max_matrix (make_RVineMatrix ?M) =
      [[2, 1, 1, 1], [2, 2, 2, 0], [3, 3, 0, 0], [4, 0, 0, 0]]" by code_simp
  from get_max_matrix_monotone [OF d]
  have "coeff (get_max_matrix (make_RVineMatrix ?M)) 0 0 \<le>
      coeff (get_max_matrix (make_RVineMatrix ?M)) 3 0" by simp
  then show ?thesis using d mx by simp
qed

section \<open>Blocks and masks\<close>

lemma set_block_cells:
  assumes "dims m R C" and "r0 + nr \<le> R" and "c0 + nc \<le> C"
  shows "dims (set_block m r0 c0 nr nc b) R C \<and>
         (\<forall>r c. coeff (set_block m r0 c0 nr nc b) r c =
            (if r0 \<le> r \<and> r < r0 + nr \<and> c0 \<le> c \<and> c < c0 + nc
             then coeff b (r - r0) (c - c0) else coeff m r c))"
proof -
  let ?B = "\<lambda>r m'. for_loop 0 nc (\<lambda>c m''. set_coeff m'' (r0 + r) (c0 + c) (coeff b r c)) m'"
  have "n \<le> nr \<Longrightarrow> dims (for_loop 0 n ?B m) R C \<and>
         (\<forall>r c. coeff (for_loop 0 n ?B m) r c =
            (if r0 \<le> r \<and> r < r0 + n \<and> c0 \<le> c \<and> c < c0 + nc
             then coeff b (r - r0) (c - c0) else coeff m r c))" for n
  proof (induction n)
    case 0
    then show ?case using assms(1) by (auto simp: for_loop_done)
  next
    case (Suc n)
    let ?s = "for_loop 0 n ?B m"
    from Suc have d: "dims ?s R C"
      and c: "\<And>r c. coeff ?s r c =
            (if r0 \<le> r \<and> r < r0 + n \<and> c0 \<le> c \<and> c < c0 + nc
             then coeff b (r - r0) (c - c0) else coeff m r c)"
      and n: "n < nr" by simp_all
    have r: "r0 + n < R" using n assms(2) by simp
    note row = fill_row [OF d r assms(3), of "\<lambda>c. coeff b n c"]
    have step: "for_loop 0 (Suc n) ?B m =
        for_loop 0 nc (\<lambda>c m''. set_coeff m'' (r0 + n) (c0 + c) (coeff b n c)) ?s"
      by (simp add: for_loop_Suc)
    show ?case
      unfolding step using row c by (auto simp: less_Suc_eq)
  qed
  from this [of nr] show ?thesis by (simp add: set_block_def)
qed

lemma block_row:
  assumes "dims m R C" and "r0 + nr \<le> R" and "c0 + nc \<le> C" and "r < nr"
  shows "block m r0 c0 nr nc ! r = take nc (drop c0 (m ! (r0 + r)))"
    and "length (block m r0 c0 nr nc ! r) = nc"
proof -
  have len: "length m = R" using assms(1) by (rule dims_length)
  have "r0 + r < R" using assms(2,4) by simp
  from dims_row [OF assms(1) this] have lr: "length (m ! (r0 + r)) = C" .
  show "block m r0 c0 nr nc ! r = take nc (drop c0 (m ! (r0 + r)))"
    using assms(2,4) len by (simp add: block_def)
  then show "length (block m r0 c0 nr nc ! r) = nc"
    using lr assms(3) by simp
qed

lemma length_block:
  assumes "dims m R C" and "r0 + nr \<le> R"
  shows "length (block m r0 c0 nr nc) = nr"
  using assms dims_length [OF assms(1)] by (simp add: block_def)

lemma coeff_block:
  assumes "dims m R C" and "r0 + nr \<le> R" and "c0 + nc \<le> C" and "r < nr" and "c < nc"
  shows "coeff (block m r0 c0 nr nc) r c = coeff m (r0 + r) (c0 + c)"
proof -
  have "r0 + r < R" using assms(2,4) by simp
  from dims_row [OF assms(1) this] have "length (m ! (r0 + r)) = C" .
  then show ?thesis
    using assms(3,5) by (simp add: coeff_def block_row(1) [OF assms(1-4)])
qed

lemma list_ex_and_map2:
  assumes "length xs = n" and "length ys = n"
  shows "list_ex (\<lambda>y. y) (map2 (\<and>) (map P xs) (map Q ys)) \<longleftrightarrow>
         (\<exists>k<n. P (xs ! k) \<and> Q (ys ! k))"
proof -
  have "map2 (\<and>) (map P xs) (map Q ys) ! k \<longleftrightarrow> P (xs ! k) \<and> Q (ys ! k)" if "k < n" for k
    using that assms by simp
  then show ?thesis using assms by (auto simp: list_ex_length)
qed

section \<open>The mask of get_needed_hfunc1\<close>

lemma hfunc1_column:
  assumes "dims no d d" and "dims mx d d" and "j \<le> d" and "i \<le> d" and "r < j"
  shows "coeff (rowwise_any (array_and (array_ne (block no 0 0 j i) x)
            (array_eq (block mx 0 0 j i) x))) r 0 \<longleftrightarrow>
         (\<exists>k<i. coeff no r k \<noteq> x \<and> coeff mx r k = x)"
proof -
  let ?B1 = "block no 0 0 j i" and ?B2 = "block mx 0 0 j i"
  have j0: "0 + j \<le> d" and i0: "0 + i \<le> d" using assms(3,4) by simp_all
  have l1: "length ?B1 = j" by (rule length_block [OF assms(1) j0])
  have l2: "length ?B2 = j" by (rule length_block [OF assms(2) j0])
  have r1: "length (?B1 ! r) = i" by (rule block_row(2) [OF assms(1) j0 i0 assms(5)])
  have r2: "length (?B2 ! r) = i" by (rule block_row(2) [OF assms(2) j0 i0 assms(5)])
  have c1: "?B1 ! r ! k = coeff no r k" if "k < i" for k
    using coeff_block [OF assms(1) j0 i0 assms(5) that] by (simp add: coeff_def)
  have c2: "?B2 ! r ! k = coeff mx r k" if "k < i" for k
    using coeff_block [OF assms(2) j0 i0 assms(5) that] by (simp add: coeff_def)
  have "coeff (rowwise_any (array_and (array_ne ?B1 x) (array_eq ?B2 x))) r 0 \<longleftrightarrow>
      list_ex (\<lambda>y. y) (map2 (\<and>) (map (\<lambda>y. y \<noteq> x) (?B1 ! r)) (map (\<lambda>y. y = x) (?B2 ! r)))"
    using l1 l2 assms(5)
    by (simp add: coeff_def rowwise_any_def array_and_def array_ne_def array_eq_def)
  also have "\<dots> \<longleftrightarrow> (\<exists>k<i. ?B1 ! r ! k \<noteq> x \<and> ?B2 ! r ! k = x)"
    by (rule list_ex_and_map2 [OF r1 r2])
  also have "\<dots> \<longleftrightarrow> (\<exists>k<i. coeff no r k \<noteq> x \<and> coeff mx r k = x)"
    using c1 c2 by auto
  finally show ?thesis .
qed

lemma needed_hfunc1_loop:
  assumes "dims no d d" and "dims mx d d" and "n \<le> d - 1"
  shows "dims (for_loop 1 n (\<lambda>i needed.
            (let j = d - i;
                 isnt_mat_j = array_ne (block no 0 0 j i) (int j);
                 is_max_j = array_eq (block mx 0 0 j i) (int j);
                 is_different = array_and isnt_mat_j is_max_j
             in set_block needed 0 i j 1 (rowwise_any is_different)))
           (Constant d d False)) d d \<and>
         (\<forall>r<d. \<forall>c<d. coeff (for_loop 1 n (\<lambda>i needed.
            (let j = d - i;
                 isnt_mat_j = array_ne (block no 0 0 j i) (int j);
                 is_max_j = array_eq (block mx 0 0 j i) (int j);
                 is_different = array_and isnt_mat_j is_max_j
             in set_block needed 0 i j 1 (rowwise_any is_different)))
           (Constant d d False)) r c \<longleftrightarrow>
           (1 \<le> c \<and> c < n \<and> r < d - c \<and>
            (\<exists>k<c. coeff no r k \<noteq> int (d - c) \<and> coeff mx r k = int (d - c))))"
  using assms(3)
proof (induction n)
  case 0
  then show ?case by (simp add: for_loop_done dims_Constant coeff_Constant)
next
  case (Suc n)
  let ?V = "\<lambda>i. rowwise_any (array_and (array_ne (block no 0 0 (d - i) i) (int (d - i)))
      (array_eq (block mx 0 0 (d - i) i) (int (d - i))))"
  let ?B = "\<lambda>i needed. set_block needed 0 i (d - i) 1 (?V i)"
  have B: "(\<lambda>i needed.
            (let j = d - i;
                 isnt_mat_j = array_ne (block no 0 0 j i) (int j);
                 is_max_j = array_eq (block mx 0 0 j i) (int j);
                 is_different = array_and isnt_mat_j is_max_j
             in set_block needed 0 i j 1 (rowwise_any is_different))) = ?B"
    by (simp add: Let_def)
  let ?s = "for_loop 1 n ?B (Constant d d False)"
  show ?case
    unfolding B
  proof (cases "n = 0")
    case True
    then show "dims (for_loop 1 (Suc n) ?B (Constant d d False)) d d \<and>
        (\<forall>r<d. \<forall>c<d. coeff (for_loop 1 (Suc n) ?B (Constant d d False)) r c \<longleftrightarrow>
           (1 \<le> c \<and> c < Suc n \<and> r < d - c \<and>
            (\<exists>k<c. coeff no r k \<noteq> int (d - c) \<and> coeff mx r k = int (d - c))))"
      by (auto simp: for_loop_done dims_Constant coeff_Constant)
  next
    case False
    with Suc have d: "dims ?s d d"
      and c: "\<And>r c. r < d \<Longrightarrow> c < d \<Longrightarrow> coeff ?s r c \<longleftrightarrow>
           (1 \<le> c \<and> c < n \<and> r < d - c \<and>
            (\<exists>k<c. coeff no r k \<noteq> int (d - c) \<and> coeff mx r k = int (d - c)))"
      and n: "1 \<le> n" "n + 1 < d" unfolding B by simp_all
    have b1: "0 + (d - n) \<le> d" and b2: "n + 1 \<le> d" and b3: "d - n \<le> d" "n \<le> d"
      using n by simp_all
    note sb = set_block_cells [OF d b1 b2, of "?V n"]
    have col: "coeff (?V n) r 0 \<longleftrightarrow>
        (\<exists>k<n. coeff no r k \<noteq> int (d - n) \<and> coeff mx r k = int (d - n))" if "r < d - n" for r
      by (rule hfunc1_column [OF assms(1,2) b3 that])
    have step: "for_loop 1 (Suc n) ?B (Constant d d False) = set_block ?s 0 n (d - n) 1 (?V n)"
      using n(1) by (simp add: for_loop_Suc)
    have dsb: "dims (set_block ?s 0 n (d - n) 1 (?V n)) d d" using sb by blast
    have csb: "coeff (set_block ?s 0 n (d - n) 1 (?V n)) r c =
        (if r < d - n \<and> c = n then coeff (?V n) r 0 else coeff ?s r c)" for r c
      unfolding sb [THEN conjunct2, rule_format, of r c] by auto
    have "coeff (set_block ?s 0 n (d - n) 1 (?V n)) r c \<longleftrightarrow>
           (1 \<le> c \<and> c < Suc n \<and> r < d - c \<and>
            (\<exists>k<c. coeff no r k \<noteq> int (d - c) \<and> coeff mx r k = int (d - c)))"
      if rc: "r < d" "c < d" for r c
    proof (cases "r < d - n \<and> c = n")
      case True
      then have "coeff (set_block ?s 0 n (d - n) 1 (?V n)) r c = coeff (?V n) r 0"
        by (simp only: csb if_True simp_thms)
      also have "\<dots> \<longleftrightarrow>
          (\<exists>k<n. coeff no r k \<noteq> int (d - n) \<and> coeff mx r k = int (d - n))"
        using True by (intro col) simp
      finally show ?thesis using True n(1) by simp
    next
      case False
      then have "coeff (set_block ?s 0 n (d - n) 1 (?V n)) r c = coeff ?s r c"
        by (simp only: csb if_False simp_thms)
      also have "\<dots> \<longleftrightarrow> (1 \<le> c \<and> c < n \<and> r < d - c \<and>
            (\<exists>k<c. coeff no r k \<noteq> int (d - c) \<and> coeff mx r k = int (d - c)))"
        by (rule c [OF rc])
      finally show ?thesis using False by (auto simp: less_Suc_eq)
    qed
    then show "dims (for_loop 1 (Suc n) ?B (Constant d d False)) d d \<and>
        (\<forall>r<d. \<forall>c<d. coeff (for_loop 1 (Suc n) ?B (Constant d d False)) r c \<longleftrightarrow>
           (1 \<le> c \<and> c < Suc n \<and> r < d - c \<and>
            (\<exists>k<c. coeff no r k \<noteq> int (d - c) \<and> coeff mx r k = int (d - c))))"
      unfolding step using dsb by blast
  qed
qed

lemma get_needed_hfunc1_cells:
  assumes "dims M d d"
  shows "dims (get_needed_hfunc1 (make_RVineMatrix M)) d d"
    and "r < d \<Longrightarrow> c < d \<Longrightarrow> coeff (get_needed_hfunc1 (make_RVineMatrix M)) r c \<longleftrightarrow>
          (1 \<le> c \<and> c < d - 1 \<and> r < d - c \<and>
            (\<exists>k<c. coeff (in_natural_order (make_RVineMatrix M)) r k \<noteq> int (d - c) \<and>
                   coeff (get_max_matrix (make_RVineMatrix M)) r k = int (d - c)))"
proof -
  have rd: "rvm_d (make_RVineMatrix M) = d"
    using assms by (simp add: make_RVineMatrix_def rows_def dims_length)
  note l = needed_hfunc1_loop [OF in_natural_order_cells(1) [OF assms]
      get_max_matrix_cells(1) [OF assms] le_refl]
  show "dims (get_needed_hfunc1 (make_RVineMatrix M)) d d"
    using l by (simp add: get_needed_hfunc1_def rd Let_def)
  assume "r < d" "c < d"
  then show "coeff (get_needed_hfunc1 (make_RVineMatrix M)) r c \<longleftrightarrow>
          (1 \<le> c \<and> c < d - 1 \<and> r < d - c \<and>
            (\<exists>k<c. coeff (in_natural_order (make_RVineMatrix M)) r k \<noteq> int (d - c) \<and>
                   coeff (get_max_matrix (make_RVineMatrix M)) r k = int (d - c)))"
    using l by (simp add: get_needed_hfunc1_def rd Let_def)
qed

text \<open>
  Claim C4.  For a \<open>d\<close> by \<open>d\<close> structure matrix with \<open>d \<ge> 3\<close>, tree level \<open>i\<close> from \<open>1\<close> to
  \<open>d - 2\<close> and \<open>j = d - i\<close>: the cell \<open>(row, i)\<close> of \<open>get_needed_hfunc1\<close>, for a row among
  \<open>0..j-1\<close>, is true exactly when some column \<open>k < i\<close> has a natural-order entry at
  \<open>(row, k)\<close> different from \<open>j\<close> and a maximum-matrix entry at \<open>(row, k)\<close> equal to \<open>j\<close>.
  Every other cell of the \<open>d\<close> by \<open>d\<close> mask is false.
\<close>

theorem get_needed_hfunc1_mask:
  assumes "dims M d d" and "3 \<le> d"
  shows "dims (get_needed_hfunc1 (make_RVineMatrix M)) d d \<and>
         (\<forall>i row. 1 \<le> i \<and> i \<le> d - 2 \<and> row < d - i \<longrightarrow>
            (coeff (get_needed_hfunc1 (make_RVineMatrix M)) row i \<longleftrightarrow>
             (\<exists>k<i. coeff (in_natural_order (make_RVineMatrix M)) row k \<noteq> int (d - i) \<and>
                    coeff (get_max_matrix (make_RVineMatrix M)) row k = int (d - i)))) \<and>
         (\<forall>row<d. \<forall>c<d. \<not> (1 \<le> c \<and> c \<le> d - 2 \<and> row < d - c) \<longrightarrow>
            \<not> coeff (get_needed_hfunc1 (make_RVineMatrix M)) row c)"
proof (intro conjI allI impI)
  show "dims (get_needed_hfunc1 (make_RVineMatrix M)) d d"
    by (rule get_needed_hfunc1_cells(1) [OF assms(1)])
next
  fix i row assume h: "1 \<le> i \<and> i \<le> d - 2 \<and> row < d - i"
  then have "row < d" "i < d" "i < d - 1" using assms(2) by auto
  with h show "coeff (get_needed_hfunc1 (make_RVineMatrix M)) row i \<longleftrightarrow>
      (\<exists>k<i. coeff (in_natural_order (make_RVineMatrix M)) row k \<noteq> int (d - i) \<and>
             coeff (get_max_matrix (make_RVineMatrix M)) row k = int (d - i))"
    by (simp add: get_needed_hfunc1_cells(2) [OF assms(1)])
next
  fix row c assume "row < d" "c < d" and n: "\<not> (1 \<le> c \<and> c \<le> d - 2 \<and> row < d - c)"
  moreover have "c < d - 1 \<longleftrightarrow> c \<le> d - 2" using assms(2) by auto
  ultimately show "\<not> coeff (get_needed_hfunc1 (make_RVineMatrix M)) row c"
    by (auto simp: get_needed_hfunc1_cells(2) [OF assms(1)])
qed

theorem get_needed_hfunc1_mask_witness:
  "dims [[2, 1, 1, 1], [1, 2, 2, 0], [3, 3, 0, 0], [4, 0, 0, 0 :: int]] 4 4 \<and> (3::nat) \<le> 4 \<and>
   coeff (get_needed_hfunc1
     (make_RVineMatrix [[2, 1, 1, 1], [1, 2, 2, 0], [3, 3, 0, 0], [4, 0, 0, 0]])) 1 2 \<and>
   \<not> coeff (get_needed_hfunc1
     (make_RVineMatrix [[2, 1, 1, 1], [1, 2, 2, 0], [3, 3, 0, 0], [4, 0, 0, 0]])) 3 1"
proof -
  let ?M = "[[2, 1, 1, 1], [1, 2, 2, 0], [3, 3, 0, 0], [4, 0, 0, 0 :: int]]"
  have d: "dims ?M 4 4" by (simp add: dims_def)
  have no: "in_natural_order (make_RVineMatrix ?M) = ?M" by code_simp
  have mx: "get_max_matrix (make_RVineMatrix ?M) =
      [[2, 1, 1, 1], [2, 2, 2, 0], [3, 3, 0, 0], [4, 0, 0, 0]]" by code_simp
  note t = get_needed_hfunc1_mask [OF d]
  from t have "coeff (get_needed_hfunc1 (make_RVineMatrix ?M)) 1 2 \<longleftrightarrow>
      (\<exists>k<2. coeff (in_natural_order (make_RVineMatrix ?M)) 1 k \<noteq> int (4 - 2) \<and>
             coeff (get_max_matrix (make_RVineMatrix ?M)) 1 k = int (4 - 2))"
    by simp
  moreover have "\<exists>k<2::nat. coeff (in_natural_order (make_RVineMatrix ?M)) 1 k \<noteq> int (4 - 2) \<and>
             coeff (get_max_matrix (make_RVineMatrix ?M)) 1 k = int (4 - 2)"
    unfolding no mx by (rule exI [of _ 0]) (simp add: coeff_def)
  moreover from t have "\<not> coeff (get_needed_hfunc1 (make_RVineMatrix ?M)) 3 1"
    by simp
  ultimately show ?thesis using d by simp
qed

text \<open>
  Claim C10.  The mask of \<open>get_needed_hfunc1\<close> is \<open>d\<close> by \<open>d\<close>, its column 0 and its bottom
  row \<open>d - 1\<close> are false throughout, and for \<open>d \<le> 2\<close> the mask is the all-false \<open>d\<close> by \<open>d\<close>
  matrix.
\<close>

theorem get_needed_hfunc1_first_column_and_bottom_row:
  assumes "dims M d d"
  shows "dims (get_needed_hfunc1 (make_RVineMatrix M)) d d \<and>
         (\<forall>row<d. \<not> coeff (get_needed_hfunc1 (make_RVineMatrix M)) row 0) \<and>
         (\<forall>c<d. \<not> coeff (get_needed_hfunc1 (make_RVineMatrix M)) (d - 1) c) \<and>
         (d \<le> 2 \<longrightarrow> get_needed_hfunc1 (make_RVineMatrix M) = Constant d d False)"
proof (intro conjI allI impI)
  show dH: "dims (get_needed_hfunc1 (make_RVineMatrix M)) d d"
    by (rule get_needed_hfunc1_cells(1) [OF assms(1)])
  {
    fix row assume "row < d"
    then show "\<not> coeff (get_needed_hfunc1 (make_RVineMatrix M)) row 0"
      by (simp add: get_needed_hfunc1_cells(2) [OF assms(1)])
  next
    fix c assume c: "c < d"
    then have "d - 1 < d" and "\<not> (1 \<le> c \<and> d - 1 < d - c)" by auto
    then show "\<not> coeff (get_needed_hfunc1 (make_RVineMatrix M)) (d - 1) c"
      using c by (simp only: get_needed_hfunc1_cells(2) [OF assms(1)]) blast
  next
    assume d2: "d \<le> 2"
    show "get_needed_hfunc1 (make_RVineMatrix M) = Constant d d False"
    proof (rule mat_eqI [OF dH dims_Constant])
      fix i j assume "i < d" "j < d"
      then show "coeff (get_needed_hfunc1 (make_RVineMatrix M)) i j = coeff (Constant d d False) i j"
        using d2 by (auto simp: get_needed_hfunc1_cells(2) [OF assms(1)] coeff_Constant)
    qed
  }
qed

theorem get_needed_hfunc1_first_column_and_bottom_row_witness:
  "dims [[1, 1], [2, 0 :: int]] 2 2 \<and>
   \<not> coeff (get_needed_hfunc1 (make_RVineMatrix [[1, 1], [2, 0]])) 0 0 \<and>
   \<not> coeff (get_needed_hfunc1 (make_RVineMatrix [[1, 1], [2, 0]])) 1 1 \<and>
   get_needed_hfunc1 (make_RVineMatrix [[1, 1], [2, 0]]) = [[False, False], [False, False]]"
proof -
  have d: "dims [[1, 1], [2, 0 :: int]] 2 2" by (simp add: dims_def)
  have c: "Constant 2 2 False = [[False, False], [False, False]]"
    by (simp add: Constant_def numeral_2_eq_2)
  note t = get_needed_hfunc1_first_column_and_bottom_row [OF d]
  from t have col: "\<forall>row<2. \<not> coeff (get_needed_hfunc1 (make_RVineMatrix [[1, 1], [2, 0]])) row 0"
    by blast
  from t have bot: "\<forall>c<2. \<not> coeff (get_needed_hfunc1 (make_RVineMatrix [[1, 1], [2, 0]])) (2 - 1) c"
    by blast
  from t have "get_needed_hfunc1 (make_RVineMatrix [[1, 1], [2, 0]]) = Constant 2 2 False"
    by blast
  with c have all: "get_needed_hfunc1 (make_RVineMatrix [[1, 1], [2, 0]]) =
      [[False, False], [False, False]]" by simp
  from col have "\<not> coeff (get_needed_hfunc1 (make_RVineMatrix [[1, 1], [2, 0]])) 0 0" by simp
  moreover from bot have "\<not> coeff (get_needed_hfunc1 (make_RVineMatrix [[1, 1], [2, 0]])) 1 1"
    by simp
  ultimately show ?thesis using d all by blast
qed

section \<open>The mask of get_needed_hfunc2\<close>

lemma hfunc2_diagonal:
  assumes "dims no d d" and "dims mx d d" and "r < d" and "i \<le> d"
  shows "any (array_and (array_eq (block no r 0 1 i) x) (array_eq (block mx r 0 1 i) x)) \<longleftrightarrow>
         (\<exists>k<i. coeff no r k = x \<and> coeff mx r k = x)"
proof -
  have r1: "r + 1 \<le> d" and i0: "0 + i \<le> d" using assms(3,4) by simp_all
  have one: "xs = [xs ! 0]" if "length xs = 1" for xs :: "int list list"
    using that by (cases xs) simp_all
  have b1: "block no r 0 1 i = [block no r 0 1 i ! 0]"
    by (rule one) (rule length_block [OF assms(1) r1])
  have b2: "block mx r 0 1 i = [block mx r 0 1 i ! 0]"
    by (rule one) (rule length_block [OF assms(2) r1])
  let ?R1 = "block no r 0 1 i ! 0" and ?R2 = "block mx r 0 1 i ! 0"
  have l1: "length ?R1 = i" by (rule block_row(2) [OF assms(1) r1 i0]) simp
  have l2: "length ?R2 = i" by (rule block_row(2) [OF assms(2) r1 i0]) simp
  have c1: "?R1 ! k = coeff no r k" if "k < i" for k
    using coeff_block [OF assms(1) r1 i0 _ that, of 0] by (simp add: coeff_def)
  have c2: "?R2 ! k = coeff mx r k" if "k < i" for k
    using coeff_block [OF assms(2) r1 i0 _ that, of 0] by (simp add: coeff_def)
  have "any (array_and (array_eq (block no r 0 1 i) x) (array_eq (block mx r 0 1 i) x)) \<longleftrightarrow>
      any (array_and (array_eq [?R1] x) (array_eq [?R2] x))"
    using b1 b2 by simp
  also have "\<dots> \<longleftrightarrow>
      list_ex (\<lambda>y. y) (map2 (\<and>) (map (\<lambda>y. y = x) ?R1) (map (\<lambda>y. y = x) ?R2))"
    by (simp add: any_def array_and_def array_eq_def)
  also have "\<dots> \<longleftrightarrow> (\<exists>k<i. ?R1 ! k = x \<and> ?R2 ! k = x)"
    by (rule list_ex_and_map2 [OF l1 l2])
  also have "\<dots> \<longleftrightarrow> (\<exists>k<i. coeff no r k = x \<and> coeff mx r k = x)"
    using c1 c2 by auto
  finally show ?thesis .
qed

lemma true_column:
  assumes "dims m d d" and "nr \<le> d" and "c0 < d"
  shows "dims (set_block m 0 c0 nr 1 (Constant nr 1 True)) d d"
    and "coeff (set_block m 0 c0 nr 1 (Constant nr 1 True)) r c \<longleftrightarrow>
         (if r < nr \<and> c = c0 then True else coeff m r c)"
proof -
  have b1: "0 + nr \<le> d" and b2: "c0 + 1 \<le> d" using assms(2,3) by simp_all
  note sb = set_block_cells [OF assms(1) b1 b2, of "Constant nr 1 True"]
  show "dims (set_block m 0 c0 nr 1 (Constant nr 1 True)) d d" using sb by blast
  show "coeff (set_block m 0 c0 nr 1 (Constant nr 1 True)) r c \<longleftrightarrow>
         (if r < nr \<and> c = c0 then True else coeff m r c)"
    unfolding sb [THEN conjunct2, rule_format, of r c] by (auto simp: coeff_Constant)
qed

lemma needed_hfunc2_loop:
  assumes "dims no d d" and "dims mx d d" and "dims h0 d d" and "n \<le> d - 1"
  shows "dims (for_loop 1 n (\<lambda>i needed.
            (let j = d - i;
                 needed = set_block needed 0 i (d - i) 1 (Constant (d - i) 1 True);
                 is_mat_j = array_eq (block no (j - 1) 0 1 i) (int j);
                 is_max_j = array_eq (block mx (j - 1) 0 1 i) (int j)
             in set_coeff needed (j - 1) i (any (array_and is_mat_j is_max_j)))) h0) d d \<and>
         (\<forall>r c. coeff (for_loop 1 n (\<lambda>i needed.
            (let j = d - i;
                 needed = set_block needed 0 i (d - i) 1 (Constant (d - i) 1 True);
                 is_mat_j = array_eq (block no (j - 1) 0 1 i) (int j);
                 is_max_j = array_eq (block mx (j - 1) 0 1 i) (int j)
             in set_coeff needed (j - 1) i (any (array_and is_mat_j is_max_j)))) h0) r c \<longleftrightarrow>
           (if 1 \<le> c \<and> c < n \<and> r < d - c
            then r < d - c - 1 \<or>
              (\<exists>k<c. coeff no (d - c - 1) k = int (d - c) \<and> coeff mx (d - c - 1) k = int (d - c))
            else coeff h0 r c))"
  using assms(4)
proof (induction n)
  case 0
  then show ?case using assms(3) by (simp add: for_loop_done)
next
  case (Suc n)
  let ?E = "\<lambda>i. any (array_and (array_eq (block no (d - i - 1) 0 1 i) (int (d - i)))
      (array_eq (block mx (d - i - 1) 0 1 i) (int (d - i))))"
  let ?B = "\<lambda>i needed. set_coeff (set_block needed 0 i (d - i) 1 (Constant (d - i) 1 True))
      (d - i - 1) i (?E i)"
  have B: "(\<lambda>i needed.
            (let j = d - i;
                 needed = set_block needed 0 i (d - i) 1 (Constant (d - i) 1 True);
                 is_mat_j = array_eq (block no (j - 1) 0 1 i) (int j);
                 is_max_j = array_eq (block mx (j - 1) 0 1 i) (int j)
             in set_coeff needed (j - 1) i (any (array_and is_mat_j is_max_j)))) = ?B"
    by (simp add: Let_def)
  let ?s = "for_loop 1 n ?B h0"
  let ?P = "\<lambda>n r c. if 1 \<le> c \<and> c < n \<and> r < d - c
            then r < d - c - 1 \<or>
              (\<exists>k<c. coeff no (d - c - 1) k = int (d - c) \<and> coeff mx (d - c - 1) k = int (d - c))
            else coeff h0 r c"
  show ?case
    unfolding B
  proof (cases "n = 0")
    case True
    then show "dims (for_loop 1 (Suc n) ?B h0) d d \<and>
        (\<forall>r c. coeff (for_loop 1 (Suc n) ?B h0) r c \<longleftrightarrow> ?P (Suc n) r c)"
      using assms(3) by (auto simp: for_loop_done)
  next
    case False
    with Suc have d: "dims ?s d d"
      and c: "\<And>r c. coeff ?s r c \<longleftrightarrow> ?P n r c"
      and n: "1 \<le> n" "n + 1 < d" unfolding B by simp_all
    have b: "d - n \<le> d" "n < d" "d - n - 1 < d" "n \<le> d" using n by simp_all
    let ?s1 = "set_block ?s 0 n (d - n) 1 (Constant (d - n) 1 True)"
    note tc = true_column [OF d b(1,2)]
    note d1 = tc(1)
    have c1: "coeff ?s1 r c \<longleftrightarrow> (if r < d - n \<and> c = n then True else coeff ?s r c)" for r c
      by (rule tc(2))
    have E: "?E n \<longleftrightarrow>
        (\<exists>k<n. coeff no (d - n - 1) k = int (d - n) \<and> coeff mx (d - n - 1) k = int (d - n))"
      by (rule hfunc2_diagonal [OF assms(1,2) b(3,4)])
    note d2 = dims_set_coeff [OF d1, of "d - n - 1" n "?E n"]
    note c2 = coeff_set_coeff [OF d1 b(3,2), of "?E n"]
    have step: "for_loop 1 (Suc n) ?B h0 = set_coeff ?s1 (d - n - 1) n (?E n)"
      using n(1) by (simp add: for_loop_Suc)
    have "coeff (set_coeff ?s1 (d - n - 1) n (?E n)) r c \<longleftrightarrow> ?P (Suc n) r c" for r c
    proof (cases "c = n")
      case True
      show ?thesis
      proof (cases "r = d - n - 1")
        case True
        with \<open>c = n\<close> have "coeff (set_coeff ?s1 (d - n - 1) n (?E n)) r c \<longleftrightarrow> ?E n"
          by (simp only: c2 simp_thms if_True)
        moreover have "d - n - 1 < d - n" using n by simp
        ultimately show ?thesis using True \<open>c = n\<close> n E by simp
      next
        case False
        with \<open>c = n\<close> have "coeff (set_coeff ?s1 (d - n - 1) n (?E n)) r c \<longleftrightarrow> coeff ?s1 r c"
          by (simp only: c2 simp_thms if_False)
        also have "\<dots> \<longleftrightarrow> (if r < d - n then True else coeff ?s r n)"
          using \<open>c = n\<close> by (simp only: c1 simp_thms)
        also have "coeff ?s r n \<longleftrightarrow> coeff h0 r n"
          by (simp only: c [of r n]) simp
        finally show ?thesis using False \<open>c = n\<close> n by auto
      qed
    next
      case False
      then have "coeff (set_coeff ?s1 (d - n - 1) n (?E n)) r c \<longleftrightarrow> coeff ?s1 r c"
        by (simp only: c2 simp_thms if_False)
      also have "\<dots> \<longleftrightarrow> coeff ?s r c"
        using False by (simp only: c1 simp_thms if_False)
      also have "\<dots> \<longleftrightarrow> ?P n r c" by (rule c)
      finally show ?thesis using False by (auto simp: less_Suc_eq)
    qed
    then show "dims (for_loop 1 (Suc n) ?B h0) d d \<and>
        (\<forall>r c. coeff (for_loop 1 (Suc n) ?B h0) r c \<longleftrightarrow> ?P (Suc n) r c)"
      unfolding step using d2 by blast
  qed
qed

lemma get_needed_hfunc2_cells:
  assumes "dims M d d" and "1 \<le> d"
  shows "dims (get_needed_hfunc2 (make_RVineMatrix M)) d d"
    and "r < d \<Longrightarrow> c < d \<Longrightarrow> coeff (get_needed_hfunc2 (make_RVineMatrix M)) r c \<longleftrightarrow>
          (if c = 0 then r < d - 1
           else c < d - 1 \<and> r < d - c \<and> (r < d - c - 1 \<or>
             (\<exists>k<c. coeff (in_natural_order (make_RVineMatrix M)) (d - c - 1) k = int (d - c) \<and>
                    coeff (get_max_matrix (make_RVineMatrix M)) (d - c - 1) k = int (d - c))))"
proof -
  have rd: "rvm_d (make_RVineMatrix M) = d"
    using assms by (simp add: make_RVineMatrix_def rows_def dims_length)
  let ?h0 = "set_block (Constant d d False) 0 0 (d - 1) 1 (Constant (d - 1) 1 True)"
  have b: "d - 1 \<le> d" "0 < d" using assms(2) by simp_all
  note tc = true_column [OF dims_Constant b, of False]
  note l = needed_hfunc2_loop [OF in_natural_order_cells(1) [OF assms(1)]
      get_max_matrix_cells(1) [OF assms(1)] tc(1) le_refl]
  show "dims (get_needed_hfunc2 (make_RVineMatrix M)) d d"
    using l by (simp add: get_needed_hfunc2_def rd Let_def)
  assume rc: "r < d" "c < d"
  have h0: "coeff ?h0 r c \<longleftrightarrow> r < d - 1 \<and> c = 0"
    using rc by (simp only: tc(2)) (simp add: coeff_Constant)
  have "coeff (get_needed_hfunc2 (make_RVineMatrix M)) r c \<longleftrightarrow>
      (if 1 \<le> c \<and> c < d - 1 \<and> r < d - c
       then r < d - c - 1 \<or>
         (\<exists>k<c. coeff (in_natural_order (make_RVineMatrix M)) (d - c - 1) k = int (d - c) \<and>
                coeff (get_max_matrix (make_RVineMatrix M)) (d - c - 1) k = int (d - c))
       else coeff ?h0 r c)"
    using l by (simp add: get_needed_hfunc2_def rd Let_def)
  then show "coeff (get_needed_hfunc2 (make_RVineMatrix M)) r c \<longleftrightarrow>
          (if c = 0 then r < d - 1
           else c < d - 1 \<and> r < d - c \<and> (r < d - c - 1 \<or>
             (\<exists>k<c. coeff (in_natural_order (make_RVineMatrix M)) (d - c - 1) k = int (d - c) \<and>
                    coeff (get_max_matrix (make_RVineMatrix M)) (d - c - 1) k = int (d - c))))"
    unfolding h0 by auto
qed

text \<open>
  Claim C3.  For a \<open>d\<close> by \<open>d\<close> structure matrix with \<open>d \<ge> 2\<close>, the mask of
  \<open>get_needed_hfunc2\<close> is \<open>d\<close> by \<open>d\<close> and
  \<^item> its column 0 is true at the rows \<open>0..d-2\<close> and false at row \<open>d - 1\<close>;
  \<^item> for a column \<open>i\<close> from \<open>1\<close> to \<open>d - 2\<close>, with \<open>j = d - i\<close>: the rows \<open>0..j-2\<close> are true, the
    diagonal cell at row \<open>j - 1\<close> is true exactly when some column \<open>k < i\<close> of row \<open>j - 1\<close>
    holds \<open>j\<close> both in the natural-order matrix and in the maximum matrix, and the rows
    from \<open>j\<close> on are false;
  \<^item> its last column \<open>d - 1\<close> is false.
\<close>

theorem get_needed_hfunc2_mask:
  assumes "dims M d d" and "2 \<le> d"
  shows "dims (get_needed_hfunc2 (make_RVineMatrix M)) d d \<and>
         (\<forall>row<d. coeff (get_needed_hfunc2 (make_RVineMatrix M)) row 0 \<longleftrightarrow> row < d - 1) \<and>
         (\<forall>i. 1 \<le> i \<and> i \<le> d - 2 \<longrightarrow>
            (\<forall>row. row + 1 < d - i \<longrightarrow> coeff (get_needed_hfunc2 (make_RVineMatrix M)) row i) \<and>
            (coeff (get_needed_hfunc2 (make_RVineMatrix M)) (d - i - 1) i \<longleftrightarrow>
               (\<exists>k<i. coeff (in_natural_order (make_RVineMatrix M)) (d - i - 1) k = int (d - i) \<and>
                      coeff (get_max_matrix (make_RVineMatrix M)) (d - i - 1) k = int (d - i))) \<and>
            (\<forall>row<d. d - i \<le> row \<longrightarrow> \<not> coeff (get_needed_hfunc2 (make_RVineMatrix M)) row i)) \<and>
         (\<forall>row<d. \<not> coeff (get_needed_hfunc2 (make_RVineMatrix M)) row (d - 1))"
proof -
  have d1: "1 \<le> d" using assms(2) by simp
  note cells = get_needed_hfunc2_cells [OF assms(1) d1]
  let ?H = "get_needed_hfunc2 (make_RVineMatrix M)"
  have col0: "coeff ?H row 0 \<longleftrightarrow> row < d - 1" if "row < d" for row
    using that assms(2) by (simp add: cells(2))
  have above: "coeff ?H row i" if "1 \<le> i \<and> i \<le> d - 2" "row + 1 < d - i" for i row
  proof -
    have "row < d" "i < d" "i \<noteq> 0" "i < d - 1" "row < d - i" "row < d - i - 1"
      using that assms(2) by auto
    then show ?thesis by (simp add: cells(2))
  qed
  have diag: "coeff ?H (d - i - 1) i \<longleftrightarrow>
      (\<exists>k<i. coeff (in_natural_order (make_RVineMatrix M)) (d - i - 1) k = int (d - i) \<and>
             coeff (get_max_matrix (make_RVineMatrix M)) (d - i - 1) k = int (d - i))"
    if "1 \<le> i \<and> i \<le> d - 2" for i
  proof -
    have "d - i - 1 < d" "i < d" "i \<noteq> 0" "i < d - 1" "d - i - 1 < d - i"
      using that assms(2) by auto
    then show ?thesis by (simp add: cells(2))
  qed
  have below: "\<not> coeff ?H row i" if "1 \<le> i \<and> i \<le> d - 2" "row < d" "d - i \<le> row" for i row
  proof -
    have "i < d" "i \<noteq> 0" "\<not> row < d - i" using that assms(2) by auto
    then show ?thesis using that(2) by (simp add: cells(2))
  qed
  have last: "\<not> coeff ?H row (d - 1)" if "row < d" for row
  proof -
    have "d - 1 < d" "d - 1 \<noteq> 0" using assms(2) by auto
    then show ?thesis using that by (simp add: cells(2))
  qed
  show ?thesis using cells(1) col0 above diag below last by blast
qed

theorem get_needed_hfunc2_mask_witness:
  "dims [[2, 1, 1, 1], [1, 2, 2, 0], [3, 3, 0, 0], [4, 0, 0, 0 :: int]] 4 4 \<and> (2::nat) \<le> 4 \<and>
   coeff (get_needed_hfunc2
     (make_RVineMatrix [[2, 1, 1, 1], [1, 2, 2, 0], [3, 3, 0, 0], [4, 0, 0, 0]])) 2 0 \<and>
   \<not> coeff (get_needed_hfunc2
     (make_RVineMatrix [[2, 1, 1, 1], [1, 2, 2, 0], [3, 3, 0, 0], [4, 0, 0, 0]])) 3 0 \<and>
   coeff (get_needed_hfunc2
     (make_RVineMatrix [[2, 1, 1, 1], [1, 2, 2, 0], [3, 3, 0, 0], [4, 0, 0, 0]])) 0 2 \<and>
   coeff (get_needed_hfunc2
     (make_RVineMatrix [[2, 1, 1, 1], [1, 2, 2, 0], [3, 3, 0, 0], [4, 0, 0, 0]])) 1 2 \<and>
   \<not> coeff (get_needed_hfunc2
     (make_RVineMatrix [[2, 1, 1, 1], [1, 2, 2, 0], [3, 3, 0, 0], [4, 0, 0, 0]])) 2 2 \<and>
   \<not> coeff (get_needed_hfunc2
     (make_RVineMatrix [[2, 1, 1, 1], [1, 2, 2, 0], [3, 3, 0, 0], [4, 0, 0, 0]])) 0 3"
proof -
  let ?M = "[[2, 1, 1, 1], [1, 2, 2, 0], [3, 3, 0, 0], [4, 0, 0, 0 :: int]]"
  let ?H = "get_needed_hfunc2 (make_RVineMatrix ?M)"
  have d: "dims ?M 4 4" by (simp add: dims_def)
  have no: "in_natural_order (make_RVineMatrix ?M) = ?M" by code_simp
  have mx: "get_max_matrix (make_RVineMatrix ?M) =
      [[2, 1, 1, 1], [2, 2, 2, 0], [3, 3, 0, 0], [4, 0, 0, 0]]" by code_simp
  note t = get_needed_hfunc2_mask [OF d]
  from t have col0: "\<forall>row<4. coeff ?H row 0 \<longleftrightarrow> row < 4 - 1" by simp
  from t [THEN conjunct2, THEN conjunct2, THEN conjunct1, rule_format, of 2]
  have col: "(\<forall>row. row + 1 < 4 - 2 \<longrightarrow> coeff ?H row 2) \<and>
      (coeff ?H (4 - 2 - 1) 2 \<longleftrightarrow>
         (\<exists>k<2. coeff (in_natural_order (make_RVineMatrix ?M)) (4 - 2 - 1) k = int (4 - 2) \<and>
                coeff (get_max_matrix (make_RVineMatrix ?M)) (4 - 2 - 1) k = int (4 - 2))) \<and>
      (\<forall>row<4. 4 - 2 \<le> row \<longrightarrow> \<not> coeff ?H row 2)" by simp
  from t have last: "\<forall>row<4. \<not> coeff ?H row (4 - 1)" by simp
  have ex: "\<exists>k<2::nat. coeff (in_natural_order (make_RVineMatrix ?M)) (4 - 2 - 1) k = int (4 - 2) \<and>
      coeff (get_max_matrix (make_RVineMatrix ?M)) (4 - 2 - 1) k = int (4 - 2)"
    unfolding no mx by (rule exI [of _ 1]) (simp add: coeff_def)
  from col0 have "coeff ?H 2 0" "\<not> coeff ?H 3 0" by simp_all
  moreover from col have "coeff ?H 0 2" by simp
  moreover from col ex have "coeff ?H 1 2" by simp
  moreover from col have "\<not> coeff ?H 2 2" by simp
  moreover from last have "\<not> coeff ?H 0 3" by simp
  ultimately show ?thesis using d by simp
qed

end
